theory Spec2Isabelle
  imports Complex_Main "HOL-Library.Log_Nat"
begin

section \<open>Python dictionaries\<close>

text \<open>
  A Python \<open>dict\<close> keeps its keys in insertion order and holds each key once.  It is
  modelled as an association list; the assignment \<open>d[k] = v\<close> replaces the value in
  place when the key is there and appends the pair otherwise.  Lookup \<open>d[k]\<close> is
  \<open>map_of\<close>, the test \<open>k in d\<close> is membership in the list of keys, and \<open>len(d)\<close> is
  the length of the list.
\<close>

fun dict_set :: "'k \<Rightarrow> 'v \<Rightarrow> ('k \<times> 'v) list \<Rightarrow> ('k \<times> 'v) list" where
  "dict_set k v [] = [(k, v)]"
| "dict_set k v ((k', v') # kvs) =
     (if k' = k then (k', v) # kvs else (k', v') # dict_set k v kvs)"

definition dict_keys :: "('k \<times> 'v) list \<Rightarrow> 'k list" where
  "dict_keys d = map fst d"

definition dict_values :: "('k \<times> 'v) list \<Rightarrow> 'v list" where
  "dict_values d = map snd d"

definition dict_contains :: "'k \<Rightarrow> ('k \<times> 'v) list \<Rightarrow> bool" where
  "dict_contains k d = (k \<in> set (dict_keys d))"

section \<open>class Student\<close>

record student =
  student_id :: string
  name :: string
  attendance :: "(string \<times> bool) list"

text \<open>\<open>Student.__init__\<close>\<close>

definition Student :: "string \<Rightarrow> string \<Rightarrow> student" where
  "Student sid nm = \<lparr>student_id = sid, name = nm, attendance = []\<rparr>"

text \<open>
  \<open>Student.mark_attendance(date=None, present=True)\<close>.  The value of
  \<open>datetime.today().strftime('%Y-%m-%d')\<close> is the parameter \<open>today\<close>.
\<close>

definition Student_mark_attendance ::
  "string \<Rightarrow> student \<Rightarrow> string option \<Rightarrow> bool \<Rightarrow> student" where
  "Student_mark_attendance today s date present =
     (let date = (case date of None \<Rightarrow> today | Some d \<Rightarrow> d)
      in s\<lparr>attendance := dict_set date present (attendance s)\<rparr>)"

subsection \<open>Floating-point arithmetic\<close>

text \<open>
  A Python \<open>float\<close> is an IEEE 754 double: a rational number \<open>m * 2 ^ e\<close> with an
  integer \<open>m\<close> of at most 53 bits and \<open>e\<close> at least \<open>-1074\<close>.  A double is modelled by the
  rational number it stands for, and an operation by the exact result rounded to the
  nearest double, ties to the even mantissa.  Results beyond the largest double do not
  arise here: a quotient of counts is at most 1 and its product with 100 below 128.
\<close>

definition pow2 :: "int \<Rightarrow> rat" where
  "pow2 e = (if e \<ge> 0 then 2 ^ nat e else 1 / 2 ^ nat (- e))"

text \<open>The binary exponent \<open>\<lfloor>log\<^sub>2 x\<rfloor>\<close> of a positive number.\<close>

definition float_exponent :: "rat \<Rightarrow> int" where
  "float_exponent x = (if x \<ge> 1 then bitlen \<lfloor>x\<rfloor> - 1 else - bitlen (\<lceil>1 / x\<rceil> - 1))"

definition round_half_even :: "rat \<Rightarrow> int" where
  "round_half_even x =
     (let f = \<lfloor>x\<rfloor>; d = x - of_int f
      in if d < 1 / 2 then f else if d > 1 / 2 then f + 1 else if even f then f else f + 1)"

text \<open>
  Rounding to the nearest double: the spacing of the doubles around \<open>x\<close> is
  \<open>2 ^ (e - 52)\<close> for the larger of the exponent of \<open>x\<close> and \<open>-1022\<close>, the exponent of
  the subnormal numbers.
\<close>

definition round_double :: "rat \<Rightarrow> rat" where
  "round_double x =
     (if x = 0 then 0
      else let e = max (float_exponent \<bar>x\<bar>) (- 1022); ulp = pow2 (e - 52)
           in sgn x * of_int (round_half_even (\<bar>x\<bar> / ulp)) * ulp)"

text \<open>
  \<open>a / b\<close> for two \<open>int\<close>s, which Python rounds once from the exact quotient.  The
  source divides only under the test \<open>total > 0\<close>.
\<close>

definition float_div :: "int \<Rightarrow> int \<Rightarrow> rat" where
  "float_div a b = round_double (of_int a / of_int b)"

text \<open>\<open>x * y\<close> for two \<open>float\<close>s; the \<open>int\<close> 100 is converted without error.\<close>

definition float_mul :: "rat \<Rightarrow> rat \<Rightarrow> rat" where
  "float_mul x y = round_double (x * y)"

text \<open>
  \<open>Student.get_attendance_percentage\<close>, with the value of the \<open>float\<close> it returns, or of
  the \<open>int\<close> 0.
\<close>

definition get_attendance_percentage :: "student \<Rightarrow> rat" where
  "get_attendance_percentage s =
     (let total = int (length (attendance s));
          present_days = sum_list [1::int. status \<leftarrow> dict_values (attendance s), status]
      in if total > 0 then float_mul (float_div present_days total) 100 else 0)"

section \<open>class AttendanceManager\<close>

text \<open>
  The manager has the single field \<open>students\<close>, a dictionary from student id to
  \<open>Student\<close>.  Every method returns the lines it prints next to its result.
\<close>

type_synonym manager = "(string \<times> student) list"

definition Manager_init :: manager where
  "Manager_init = []"

definition add_student :: "manager \<Rightarrow> string \<Rightarrow> string \<Rightarrow> bool \<times> string list \<times> manager" where
  "add_student students sid nm =
     (if dict_contains sid students
      then (False, [''[WARN] Student '' @ sid @ '' already exists.''], students)
      else (True, [''[INFO] Student '' @ nm @ '' added with ID '' @ sid @ ''.''],
            dict_set sid (Student sid nm) students))"

text \<open>
  \<open>AttendanceManager.mark_attendance(student_id, present=True, date=None)\<close>.  The
  Python mutates the \<open>Student\<close> object held under the key; here the value under the
  key is replaced by the marked student.
\<close>

definition mark_attendance ::
  "string \<Rightarrow> manager \<Rightarrow> string \<Rightarrow> bool \<Rightarrow> string option \<Rightarrow> bool \<times> string list \<times> manager" where
  "mark_attendance today students sid present date =
     (case map_of students sid of
        None \<Rightarrow> (False, [''[ERROR] Student ID '' @ sid @ '' not found.''], students)
      | Some s \<Rightarrow>
          (True, [''[INFO] Attendance marked for '' @ sid @ ''.''],
           dict_set sid (Student_mark_attendance today s date present) students))"


section \<open>File handling: the csv module and text files\<close>

text \<open>
  \<open>save_to_csv\<close> and \<open>load_from_csv\<close> go through Python's \<open>csv\<close> module and through
  text files.  Both are modelled at the level of characters, after CPython 3.11 and
  later, for the default dialect \<open>excel\<close>: delimiter comma, quote character \<open>"\<close>,
  \<open>doublequote\<close>, line terminator CR LF, \<open>QUOTE_MINIMAL\<close>, no escape character, not
  strict, \<open>skipinitialspace\<close> off.  A \<open>string\<close> stands for a Python \<open>str\<close>; encoding to
  and from bytes is taken to be lossless.
\<close>

abbreviation (input) CR :: char where "CR \<equiv> CHR 0x0D"
abbreviation (input) LF :: char where "LF \<equiv> CHR 0x0A"
abbreviation (input) delimiter :: char where "delimiter \<equiv> CHR '',''"
abbreviation (input) quotechar :: char where "quotechar \<equiv> CHR 0x22"

text \<open>\<open>str(present)\<close> for a \<open>bool\<close>, as \<open>csv.writer\<close> applies it to a field that is not a string.\<close>

definition str_bool :: "bool \<Rightarrow> string" where
  "str_bool b = (if b then ''True'' else ''False'')"

subsection \<open>csv.writer\<close>

text \<open>
  A field is quoted when it holds the delimiter, the quote character or a character of
  the line terminator; inside the quotes every quote character is doubled.
\<close>

definition needs_quotes :: "string \<Rightarrow> bool" where
  "needs_quotes f = list_ex (\<lambda>c. c = delimiter \<or> c = quotechar \<or> c = CR \<or> c = LF) f"

definition join_append :: "string \<Rightarrow> string" where
  "join_append f =
     (if needs_quotes f
      then [quotechar] @ concat (map (\<lambda>c. if c = quotechar then [c, c] else [c]) f) @ [quotechar]
      else f)"

fun join_fields :: "string list \<Rightarrow> string" where
  "join_fields [] = []"
| "join_fields [f] = f"
| "join_fields (f # g # fs) = f @ [delimiter] @ join_fields (g # fs)"

text \<open>\<open>writer.writerow\<close>: a record that is one empty field is written as \<open>""\<close>.\<close>

definition writerow :: "string list \<Rightarrow> string" where
  "writerow row =
     (let rec = join_fields (map join_append row)
      in (if row \<noteq> [] \<and> rec = [] then [quotechar, quotechar] else rec) @ [CR, LF])"

subsection \<open>Text files\<close>

text \<open>
  The file system maps a path to the text of the file there.  \<open>write_fails\<close> and
  \<open>read_fails\<close> give, for a path that cannot be opened for writing or for reading, the
  text of the exception that \<open>open\<close> raises.
\<close>

record filesystem =
  files :: "string \<Rightarrow> string option"
  write_fails :: "string \<Rightarrow> string option"
  read_fails :: "string \<Rightarrow> string option"

text \<open>
  A file opened with \<open>open(filename, 'w', newline='')\<close> stores the characters written,
  untranslated.  A file opened with \<open>open(filename, 'r')\<close> is read with universal
  newlines: CR LF and a lone CR both arrive as LF.
\<close>

fun universal_newlines :: "string \<Rightarrow> string" where
  "universal_newlines [] = []"
| "universal_newlines [c] = (if c = CR then [LF] else [c])"
| "universal_newlines (c # d # cs) =
     (if c = CR \<and> d = LF then LF # universal_newlines cs
      else if c = CR then LF # universal_newlines (d # cs)
      else c # universal_newlines (d # cs))"

text \<open>Iterating over a text file gives its lines, each with its final LF.\<close>

fun file_lines :: "string \<Rightarrow> string \<Rightarrow> string list" where
  "file_lines cur [] = (if cur = [] then [] else [cur])"
| "file_lines cur (c # cs) =
     (if c = LF then (cur @ [c]) # file_lines [] cs else file_lines (cur @ [c]) cs)"

definition open_read :: "string \<Rightarrow> string list" where
  "open_read content = file_lines [] (universal_newlines content)"

subsection \<open>csv.reader\<close>

text \<open>
  The reader is the state machine of \<open>parse_process_char\<close> in CPython's \<open>_csv.c\<close>.  The
  states \<open>ESCAPED_CHAR\<close>, \<open>AFTER_ESCAPED_CRNL\<close> and \<open>ESCAPE_IN_QUOTED_FIELD\<close> need an
  escape character and are left out.
\<close>

datatype parser_state =
  START_RECORD | START_FIELD | IN_FIELD | IN_QUOTED_FIELD | QUOTE_IN_QUOTED_FIELD | EAT_CRNL

text \<open>The reader is fed the characters of a line and then the end-of-line mark.\<close>

datatype input_char = Ch char | EOL

record reader =
  state :: parser_state
  row_fields :: "string list"
  cur_field :: string

text \<open>\<open>csv.field_size_limit()\<close>\<close>

definition field_limit :: nat where
  "field_limit = 131072"

definition parse_reset :: reader where
  "parse_reset = \<lparr>state = START_RECORD, row_fields = [], cur_field = []\<rparr>"

definition parse_save_field :: "reader \<Rightarrow> reader" where
  "parse_save_field r = r\<lparr>row_fields := row_fields r @ [cur_field r], cur_field := []\<rparr>"

definition parse_add_char :: "reader \<Rightarrow> char \<Rightarrow> string + reader" where
  "parse_add_char r c =
     (if length (cur_field r) \<ge> field_limit
      then Inl ''field larger than field limit (131072)''
      else Inr (r\<lparr>cur_field := cur_field r @ [c]\<rparr>))"

definition then_state :: "string + reader \<Rightarrow> parser_state \<Rightarrow> string + reader" where
  "then_state res st = (case res of Inl e \<Rightarrow> Inl e | Inr r \<Rightarrow> Inr (r\<lparr>state := st\<rparr>))"

definition start_field :: "reader \<Rightarrow> input_char \<Rightarrow> string + reader" where
  "start_field r c =
     (case c of
        EOL \<Rightarrow> Inr ((parse_save_field r)\<lparr>state := START_RECORD\<rparr>)
      | Ch ch \<Rightarrow>
          if ch = LF \<or> ch = CR then Inr ((parse_save_field r)\<lparr>state := EAT_CRNL\<rparr>)
          else if ch = quotechar then Inr (r\<lparr>state := IN_QUOTED_FIELD\<rparr>)
          else if ch = delimiter then Inr (parse_save_field r)
          else then_state (parse_add_char r ch) IN_FIELD)"

definition parse_process_char :: "reader \<Rightarrow> input_char \<Rightarrow> string + reader" where
  "parse_process_char r c =
     (case state r of
        START_RECORD \<Rightarrow>
          (case c of
             EOL \<Rightarrow> Inr r
           | Ch ch \<Rightarrow>
               if ch = LF \<or> ch = CR then Inr (r\<lparr>state := EAT_CRNL\<rparr>)
               else start_field (r\<lparr>state := START_FIELD\<rparr>) c)
      | START_FIELD \<Rightarrow> start_field r c
      | IN_FIELD \<Rightarrow>
          (case c of
             EOL \<Rightarrow> Inr ((parse_save_field r)\<lparr>state := START_RECORD\<rparr>)
           | Ch ch \<Rightarrow>
               if ch = LF \<or> ch = CR then Inr ((parse_save_field r)\<lparr>state := EAT_CRNL\<rparr>)
               else if ch = delimiter then Inr ((parse_save_field r)\<lparr>state := START_FIELD\<rparr>)
               else parse_add_char r ch)
      | IN_QUOTED_FIELD \<Rightarrow>
          (case c of
             EOL \<Rightarrow> Inr r
           | Ch ch \<Rightarrow>
               if ch = quotechar then Inr (r\<lparr>state := QUOTE_IN_QUOTED_FIELD\<rparr>)
               else parse_add_char r ch)
      | QUOTE_IN_QUOTED_FIELD \<Rightarrow>
          (case c of
             EOL \<Rightarrow> Inr ((parse_save_field r)\<lparr>state := START_RECORD\<rparr>)
           | Ch ch \<Rightarrow>
               if ch = quotechar then then_state (parse_add_char r ch) IN_QUOTED_FIELD
               else if ch = delimiter then Inr ((parse_save_field r)\<lparr>state := START_FIELD\<rparr>)
               else if ch = LF \<or> ch = CR then Inr ((parse_save_field r)\<lparr>state := EAT_CRNL\<rparr>)
               else then_state (parse_add_char r ch) IN_FIELD)
      | EAT_CRNL \<Rightarrow>
          (case c of
             EOL \<Rightarrow> Inr (r\<lparr>state := START_RECORD\<rparr>)
           | Ch ch \<Rightarrow>
               if ch = LF \<or> ch = CR then Inr r
               else Inl (''new-line character seen in unquoted field - do you need to open the file with newline='' @
                         [CHR 0x27, CHR 0x27] @ ''?'')))"

fun parse_chars :: "reader \<Rightarrow> string \<Rightarrow> string + reader" where
  "parse_chars r [] = Inr r"
| "parse_chars r (c # cs) =
     (case parse_process_char r (Ch c) of Inl e \<Rightarrow> Inl e | Inr r' \<Rightarrow> parse_chars r' cs)"

definition parse_line :: "reader \<Rightarrow> string \<Rightarrow> string + reader" where
  "parse_line r line =
     (case parse_chars r line of Inl e \<Rightarrow> Inl e | Inr r' \<Rightarrow> parse_process_char r' EOL)"

text \<open>
  \<open>Reader_iternext\<close>, called until the lines run out or an error is raised: the rows
  that the loop \<open>for row in reader\<close> sees, and the error that ends the loop, if any.
  A record goes on over the next line while its last line ended inside quotes; at the
  end of the file a record that was begun is given out.
\<close>

fun reader_rows :: "reader \<Rightarrow> string list \<Rightarrow> string list list \<times> string option" where
  "reader_rows r [] =
     (if cur_field r \<noteq> [] \<or> state r = IN_QUOTED_FIELD
      then ([row_fields (parse_save_field r)], None) else ([], None))"
| "reader_rows r (line # lines) =
     (case parse_line r line of
        Inl e \<Rightarrow> ([], Some e)
      | Inr r' \<Rightarrow>
          if state r' \<noteq> START_RECORD then reader_rows r' lines
          else (case reader_rows parse_reset lines of (rows, e) \<Rightarrow> (row_fields r' # rows, e)))"

definition csv_reader :: "string list \<Rightarrow> string list list \<times> string option" where
  "csv_reader lines = reader_rows parse_reset lines"

subsection \<open>save_to_csv and load_from_csv\<close>

text \<open>The rows that the two nested loops of \<open>save_to_csv\<close> hand to \<open>writer.writerow\<close>.\<close>

definition save_rows :: "manager \<Rightarrow> string list list" where
  "save_rows students =
     [[sid, name s, date, str_bool present]. (sid, s) \<leftarrow> students, (date, present) \<leftarrow> attendance s]"

definition save_to_csv :: "filesystem \<Rightarrow> string \<Rightarrow> manager \<Rightarrow> string list \<times> filesystem" where
  "save_to_csv fs filename students =
     (case write_fails fs filename of
        Some e \<Rightarrow> ([''[ERROR] Failed to save file: '' @ e], fs)
      | None \<Rightarrow>
          ([''[INFO] Attendance data saved to '' @ [CHR 0x27] @ filename @ [CHR 0x27] @ ''.''],
           fs\<lparr>files := (files fs)(filename \<mapsto> concat (map writerow (save_rows students)))\<rparr>))"

text \<open>
  The body of the loop of \<open>load_from_csv\<close> for one row.  The lookup
  \<open>self.students[student_id]\<close> finds the key, which is there or has just been put there.
\<close>

definition load_row :: "string \<Rightarrow> manager \<Rightarrow> string list \<Rightarrow> manager" where
  "load_row today students row =
     (if length row \<noteq> 4 then students
      else
        (let sid = row ! 0; nm = row ! 1; date = row ! 2; present = row ! 3;
             present = (present = ''True'');
             students = (if \<not> dict_contains sid students
                         then dict_set sid (Student sid nm) students else students)
         in case map_of students sid of
              Some s \<Rightarrow> dict_set sid (Student_mark_attendance today s (Some date) present) students
            | None \<Rightarrow> students))"

definition load_rows :: "string \<Rightarrow> manager \<Rightarrow> string list list \<Rightarrow> manager" where
  "load_rows today students rows = foldl (load_row today) students rows"

definition load_from_csv ::
  "string \<Rightarrow> filesystem \<Rightarrow> string \<Rightarrow> manager \<Rightarrow> string list \<times> manager" where
  "load_from_csv today fs filename students =
     (case files fs filename of
        None \<Rightarrow> ([''[WARN] File '' @ [CHR 0x27] @ filename @ [CHR 0x27] @ '' not found.''], students)
      | Some content \<Rightarrow>
          (case read_fails fs filename of
             Some e \<Rightarrow> ([''[ERROR] Failed to load file: '' @ e], students)
           | None \<Rightarrow>
               (case csv_reader (open_read content) of
                  (rows, err) \<Rightarrow>
                    ((case err of
                        None \<Rightarrow> [''[INFO] Data loaded from '' @ [CHR 0x27] @ filename @ [CHR 0x27] @ ''.'']
                      | Some e \<Rightarrow> [''[ERROR] Failed to load file: '' @ e]),
                     load_rows today students rows))))"

text \<open>The student that a row with four fields marks: the one under its id, or a new one.\<close>

definition row_student :: "manager \<Rightarrow> string list \<Rightarrow> student" where
  "row_student students row =
     (case map_of students (row ! 0) of None \<Rightarrow> Student (row ! 0) (row ! 1) | Some s \<Rightarrow> s)"

text \<open>The rows that the loop of \<open>load_from_csv\<close> runs over.\<close>

definition file_rows :: "filesystem \<Rightarrow> string \<Rightarrow> string list list" where
  "file_rows fs filename =
     (case files fs filename of
        None \<Rightarrow> []
      | Some content \<Rightarrow>
          (case read_fails fs filename of
             Some e \<Rightarrow> []
           | None \<Rightarrow> fst (csv_reader (open_read content))))"

subsection \<open>The reader, character by character\<close>

text \<open>
  The rows that the reader gives for a text that is empty or ends in a line feed, taken
  one character at a time: after each line feed comes the end-of-line mark, and a record
  is given out when the mark leaves the state \<open>START_RECORD\<close>.
\<close>

fun feed :: "reader \<Rightarrow> string \<Rightarrow> string list list \<times> string option" where
  "feed r [] = reader_rows r []"
| "feed r (c # cs) =
     (case parse_process_char r (Ch c) of
        Inl e \<Rightarrow> ([], Some e)
      | Inr r1 \<Rightarrow>
          if c = LF then
            (case parse_process_char r1 EOL of
               Inl e \<Rightarrow> ([], Some e)
             | Inr r2 \<Rightarrow>
                 if state r2 \<noteq> START_RECORD then feed r2 cs
                 else (case feed parse_reset cs of (rows, e) \<Rightarrow> (row_fields r2 # rows, e)))
          else feed r1 cs)"

text \<open>
  The state after a piece of text inside a record: no error, and every line feed of the
  piece lies inside quotes, so that the record goes on over it.
\<close>

fun quiet :: "reader \<Rightarrow> string \<Rightarrow> reader option" where
  "quiet r [] = Some r"
| "quiet r (c # cs) =
     (case parse_process_char r (Ch c) of
        Inl e \<Rightarrow> None
      | Inr r1 \<Rightarrow> if c = LF \<and> state r1 \<noteq> IN_QUOTED_FIELD then None else quiet r1 cs)"

text \<open>What \<open>writerow\<close> writes before the line terminator.\<close>

definition row_text :: "string list \<Rightarrow> string" where
  "row_text row =
     (let rec = join_fields (map join_append row)
      in if row \<noteq> [] \<and> rec = [] then [quotechar, quotechar] else rec)"

text \<open>
  A field that the reader takes back as written: no carriage return and no more
  characters than the field size limit.  A roster whose ids, names and dates are such.
\<close>

definition csv_safe :: "string \<Rightarrow> bool" where
  "csv_safe f \<longleftrightarrow> CR \<notin> set f \<and> length f \<le> field_limit"

definition roster_csv_safe :: "manager \<Rightarrow> bool" where
  "roster_csv_safe students \<longleftrightarrow>
     list_all (\<lambda>(sid, s). csv_safe sid \<and> csv_safe (name s) \<and>
                 list_all (\<lambda>(date, present). csv_safe date) (attendance s)) students"

text \<open>
  A roster as the methods build it: each id is held once, the student under an id has
  that id, and each of its dates is held once.
\<close>

definition roster_ok :: "manager \<Rightarrow> bool" where
  "roster_ok students \<longleftrightarrow>
     distinct (map fst students) \<and>
     list_all (\<lambda>(sid, s). student_id s = sid \<and> distinct (map fst (attendance s))) students"

text \<open>The (id, name, date, present) tuples of a roster.\<close>

definition records :: "manager \<Rightarrow> (string \<times> string \<times> string \<times> bool) set" where
  "records students =
     set [(sid, name s, date, present). (sid, s) \<leftarrow> students, (date, present) \<leftarrow> attendance s]"

section \<open>class AttendanceDB\<close>

text \<open>
  The SQLite database: the three tables of \<open>_create_tables\<close> as lists of rows in
  insertion order.  SQLite checks a \<open>FOREIGN KEY\<close> clause only on a connection where
  \<open>PRAGMA foreign_keys\<close> is on; it is off on a new connection, and no statement of the
  program turns it on.  Python strings are
  stored as \<open>TEXT\<close> and compared byte by byte, \<open>int(present)\<close> is 0 or 1.
\<close>

record attendance_db =
  users_table :: "(string \<times> string) list"
  students_table :: "(string \<times> string) list"
  attendance_table :: "(string \<times> string \<times> int) list"

text \<open>\<open>PRAGMA foreign_keys\<close> of the connection that \<open>sqlite3.connect\<close> opens.\<close>

definition foreign_keys :: bool where
  "foreign_keys = False"

text \<open>\<open>AttendanceDB.__init__\<close> on a database file that does not exist yet.\<close>

definition DB_init :: attendance_db where
  "DB_init = \<lparr>users_table = [], students_table = [], attendance_table = []\<rparr>"

definition DB_add_user :: "attendance_db \<Rightarrow> string \<Rightarrow> string \<Rightarrow> string list \<times> attendance_db" where
  "DB_add_user db username password =
     (if username \<in> set (map fst (users_table db))
      then ([''[ERROR] User already exists.''], db)
      else ([], db\<lparr>users_table := users_table db @ [(username, password)]\<rparr>))"

text \<open>\<open>cursor.fetchone()\<close>: the first row of the result, or \<open>None\<close>.\<close>

definition fetchone :: "'a list \<Rightarrow> 'a option" where
  "fetchone rows = (case rows of [] \<Rightarrow> None | row # _ \<Rightarrow> Some row)"

definition DB_authenticate :: "attendance_db \<Rightarrow> string \<Rightarrow> string \<Rightarrow> bool" where
  "DB_authenticate db username password =
     (fetchone (filter (\<lambda>(u, p). u = username \<and> p = password) (users_table db)) \<noteq> None)"

definition DB_add_student :: "attendance_db \<Rightarrow> string \<Rightarrow> string \<Rightarrow> string list \<times> attendance_db" where
  "DB_add_student db sid nm =
     (if sid \<in> set (map fst (students_table db))
      then ([''[WARN] Student '' @ sid @ '' already exists.''], db)
      else ([], db\<lparr>students_table := students_table db @ [(sid, nm)]\<rparr>))"

text \<open>
  \<open>INSERT OR REPLACE\<close> deletes the row that has the same primary key, if there is one,
  and inserts the new row.
\<close>

definition DB_mark_attendance ::
  "attendance_db \<Rightarrow> string \<Rightarrow> string \<Rightarrow> bool \<Rightarrow> string list \<times> attendance_db" where
  "DB_mark_attendance db sid date present =
     (if foreign_keys \<and> sid \<notin> set (map fst (students_table db))
      then ([''[ERROR] FOREIGN KEY constraint failed''], db)
      else ([], db\<lparr>attendance_table :=
                     filter (\<lambda>(s, d, p). \<not> (s = sid \<and> d = date)) (attendance_table db)
                     @ [(sid, date, if present then 1 else 0)]\<rparr>))"

section \<open>Facts about dictionaries\<close>

lemma map_of_dict_set: "map_of (dict_set k v d) = (map_of d)(k \<mapsto> v)"
  by (induction d) (auto simp: fun_eq_iff)

lemma keys_dict_set:
  "map fst (dict_set k v d) = (if k \<in> set (map fst d) then map fst d else map fst d @ [k])"
  by (induction d) (auto simp: rev_image_eqI)

lemma dict_set_fresh: "k \<notin> set (map fst d) \<Longrightarrow> dict_set k v d = d @ [(k, v)]"
  by (induction d) auto

lemma distinct_dict_set: "distinct (map fst d) \<Longrightarrow> distinct (map fst (dict_set k v d))"
  by (simp add: keys_dict_set)


section \<open>Attendance percentage\<close>

lemma present_days_count:
  "sum_list [1::int. status \<leftarrow> dict_values d, status] = int (length (filter snd d))"
  by (induction d) (auto simp: dict_values_def)

lemma length_eq_card_dom:
  "distinct (map fst d) \<Longrightarrow> length d = card (dom (map_of d))"
  by (metis distinct_card dom_map_of_conv_image_fst length_map set_map)

lemma present_dates_eq:
  assumes "distinct (map fst d)"
  shows "{k. map_of d k = Some True} = fst ` set (filter snd d)"
proof -
  have "map_of d k = Some True \<longleftrightarrow> (k, True) \<in> set d" for k
    using assms by simp
  then show ?thesis by force
qed

lemma present_days_eq_card:
  assumes "distinct (map fst d)"
  shows "length (filter snd d) = card {k. map_of d k = Some True}"
proof -
  have "distinct (map fst (filter snd d))"
    using assms by (simp add: distinct_map_filter)
  then have "length (filter snd d) = card (fst ` set (filter snd d))"
    by (metis distinct_card length_map set_map)
  then show ?thesis
    by (simp only: present_dates_eq [OF assms])
qed

text \<open>The attendance mapping of a student is a dictionary: every date is held once.\<close>

lemma Student_dates_distinct: "distinct (map fst (attendance (Student sid nm)))"
  by (simp add: Student_def)

lemma Student_mark_attendance_dates_distinct:
  "distinct (map fst (attendance s)) \<Longrightarrow>
   distinct (map fst (attendance (Student_mark_attendance today s date present)))"
  by (simp add: Student_mark_attendance_def distinct_dict_set)

subsection \<open>Rounding to a double\<close>

lemma pow2_powi: "pow2 e = power_int 2 e"
  by (simp add: pow2_def power_int_def power_one_over inverse_eq_divide)

lemma pow2_pos: "0 < pow2 e"
  by (simp add: pow2_powi)

lemma pow2_mono: "a \<le> b \<Longrightarrow> pow2 a \<le> pow2 b"
  by (simp add: pow2_powi power_int_increasing)

lemma pow2_add: "pow2 (a + b) = pow2 a * pow2 b"
  by (simp add: pow2_powi power_int_add)

lemma pow2_half: "pow2 e / 2 = pow2 (e - 1)"
  using pow2_add [of "e - 1" 1] by (simp add: pow2_def)

lemma round_half_even_error: "\<bar>of_int (round_half_even x) - x\<bar> \<le> 1 / 2"
proof -
  have "of_int \<lfloor>x\<rfloor> \<le> x" "x < of_int \<lfloor>x\<rfloor> + 1"
    by linarith+
  then show ?thesis
    by (auto simp: round_half_even_def Let_def)
qed

lemma round_half_even_nonneg: "0 \<le> x \<Longrightarrow> 0 \<le> round_half_even x"
  by (auto simp: round_half_even_def Let_def)

lemma float_exponent_le:
  assumes "0 < x"
  shows "pow2 (float_exponent x) \<le> x"
proof (cases "1 \<le> x")
  case True
  then have n: "0 < \<lfloor>x\<rfloor>" by linarith
  have "(2::int) ^ nat (bitlen \<lfloor>x\<rfloor> - 1) \<le> \<lfloor>x\<rfloor>"
    using bitlen_bounds [OF n] by simp
  then have "(of_int ((2::int) ^ nat (bitlen \<lfloor>x\<rfloor> - 1)) :: rat) \<le> of_int \<lfloor>x\<rfloor>"
    by (simp only: of_int_le_iff)
  also have "\<dots> \<le> x" by linarith
  finally have "(2::rat) ^ nat (bitlen \<lfloor>x\<rfloor> - 1) \<le> x" by simp
  moreover have "0 \<le> bitlen \<lfloor>x\<rfloor> - 1"
    using n by (simp add: bitlen_alt_def)
  ultimately show ?thesis
    using True by (simp add: float_exponent_def pow2_def)
next
  case False
  let ?n = "\<lceil>1 / x\<rceil>"
  have "1 < 1 / x" using False assms by simp
  then have m: "0 < ?n - 1" by linarith
  have "?n - 1 < 2 ^ nat (bitlen (?n - 1))"
    using bitlen_bounds [OF m] by simp
  then have "?n \<le> 2 ^ nat (bitlen (?n - 1))" by linarith
  then have "(of_int ?n :: rat) \<le> of_int (2 ^ nat (bitlen (?n - 1)))"
    by (simp only: of_int_le_iff)
  also have "(of_int (2 ^ nat (bitlen (?n - 1))) :: rat) = 2 ^ nat (bitlen (?n - 1))"
    by simp
  finally have "(of_int ?n :: rat) \<le> 2 ^ nat (bitlen (?n - 1))" .
  moreover have "1 / x \<le> of_int ?n" by linarith
  ultimately have le: "1 / x \<le> 2 ^ nat (bitlen (?n - 1))" by (rule order_trans [rotated])
  have "1 / 2 ^ nat (bitlen (?n - 1)) \<le> x"
    using le assms by (simp add: field_simps)
  moreover have "0 < bitlen (?n - 1)"
    using m by (simp add: bitlen_alt_def)
  ultimately show ?thesis
    using False by (simp add: float_exponent_def pow2_def)
qed

lemma round_double_pos:
  assumes "0 < x"
  shows "round_double x =
     of_int (round_half_even (x / pow2 (max (float_exponent x) (- 1022) - 52))) *
     pow2 (max (float_exponent x) (- 1022) - 52)"
  using assms by (simp add: round_double_def Let_def)

lemma round_double_nonneg:
  assumes "0 \<le> x"
  shows "0 \<le> round_double x"
proof (cases "x = 0")
  case True
  then show ?thesis by (simp add: round_double_def)
next
  case False
  let ?ulp = "pow2 (max (float_exponent x) (- 1022) - 52)"
  have "0 < x" using assms False by simp
  moreover have "0 < ?ulp" by (rule pow2_pos)
  ultimately have "0 \<le> x / ?ulp" by simp
  then have "0 \<le> round_half_even (x / ?ulp)" by (rule round_half_even_nonneg)
  then have "0 \<le> (of_int (round_half_even (x / ?ulp)) :: rat) * ?ulp"
    using \<open>0 < ?ulp\<close> by simp
  then show ?thesis
    using \<open>0 < x\<close> by (simp only: round_double_pos)
qed

lemma round_double_error:
  assumes "0 < x"
  shows "\<bar>round_double x - x\<bar> \<le> pow2 (max (float_exponent x) (- 1022) - 53)"
proof -
  let ?ulp = "pow2 (max (float_exponent x) (- 1022) - 52)"
  have ulp: "0 < ?ulp" by (rule pow2_pos)
  have rd: "round_double x = of_int (round_half_even (x / ?ulp)) * ?ulp"
    using assms by (rule round_double_pos)
  have "of_int (round_half_even (x / ?ulp)) * ?ulp - x =
        (of_int (round_half_even (x / ?ulp)) - x / ?ulp) * ?ulp"
    using ulp by (simp add: left_diff_distrib)
  then have "\<bar>of_int (round_half_even (x / ?ulp)) * ?ulp - x\<bar> =
        \<bar>of_int (round_half_even (x / ?ulp)) - x / ?ulp\<bar> * ?ulp"
    using ulp by (simp only: abs_mult abs_of_pos)
  also have "\<dots> \<le> 1 / 2 * ?ulp"
    using round_half_even_error [of "x / ?ulp"] ulp by (intro mult_right_mono) simp_all
  also have "\<dots> = pow2 (max (float_exponent x) (- 1022) - 53)"
    using pow2_half [of "max (float_exponent x) (- 1022) - 52"] by simp
  finally show ?thesis
    using rd by simp
qed

lemma round_double_error_below:
  assumes "0 < x" "x < pow2 k" "- 1021 \<le> k"
  shows "\<bar>round_double x - x\<bar> \<le> pow2 (k - 54)"
proof -
  have "float_exponent x < k"
  proof (rule ccontr)
    assume "\<not> float_exponent x < k"
    then have "pow2 k \<le> pow2 (float_exponent x)" by (simp add: pow2_mono)
    with float_exponent_le [OF assms(1)] assms(2) show False by simp
  qed
  then have "max (float_exponent x) (- 1022) - 53 \<le> k - 54"
    using assms(3) by simp
  then have "pow2 (max (float_exponent x) (- 1022) - 53) \<le> pow2 (k - 54)"
    by (rule pow2_mono)
  with round_double_error [OF assms(1)] show ?thesis by simp
qed

lemma float_percentage_error:
  assumes "0 \<le> p" "p \<le> n" "0 < n"
  shows "\<bar>float_mul (float_div p n) 100 - of_int p / of_int n * 100\<bar> \<le> 1 / 2 ^ 45"
proof (cases "p = 0")
  case True
  then show ?thesis
    by (simp add: float_mul_def float_div_def round_double_def)
next
  case False
  let ?q = "of_int p / of_int n :: rat"
  let ?fq = "float_div p n"
  have q: "0 < ?q" "?q \<le> 1"
    using assms False by simp_all
  have "?q < pow2 1" using q by (simp add: pow2_def)
  from round_double_error_below [OF q(1) this]
  have eq: "\<bar>?fq - ?q\<bar> \<le> pow2 (- 53)"
    by (simp add: float_div_def)
  have p53: "pow2 (- 53) = 1 / 2 ^ 53" and p47: "pow2 (- 47) = 1 / 2 ^ 47"
    by (simp_all add: pow2_def)
  have fq0: "0 \<le> ?fq"
    using q(1) by (simp add: float_div_def round_double_nonneg)
  have fq1: "?fq \<le> 1 + 1 / 2 ^ 53"
    using eq q(2) unfolding p53 by linarith
  have ey: "\<bar>round_double (?fq * 100) - ?fq * 100\<bar> \<le> pow2 (- 47)"
  proof (cases "?fq = 0")
    case True
    then show ?thesis using pow2_pos [of "- 47"] by (simp add: round_double_def)
  next
    case False
    then have "0 < ?fq * 100" using fq0 by simp
    moreover have "pow2 7 = 128"
      by (simp add: pow2_def)
    then have "?fq * 100 < pow2 7"
      using fq1 by simp
    ultimately show ?thesis
      using round_double_error_below [of "?fq * 100" 7] by simp
  qed
  have tri: "\<bar>a - c * 100\<bar> \<le> \<bar>a - b * 100\<bar> + \<bar>b - c\<bar> * 100" for a b c :: rat
  proof -
    have "\<bar>a - c * 100\<bar> = \<bar>(a - b * 100) + (b - c) * 100\<bar>"
      by (simp add: algebra_simps)
    also have "\<dots> \<le> \<bar>a - b * 100\<bar> + \<bar>(b - c) * 100\<bar>"
      by (rule abs_triangle_ineq)
    also have "\<bar>(b - c) * 100\<bar> = \<bar>b - c\<bar> * 100"
      by (simp only: abs_mult abs_numeral)
    finally show ?thesis .
  qed
  have "\<bar>float_mul ?fq 100 - ?q * 100\<bar> \<le>
        \<bar>round_double (?fq * 100) - ?fq * 100\<bar> + \<bar>?fq - ?q\<bar> * 100"
    unfolding float_mul_def by (rule tri)
  also have "\<dots> \<le> 1 / 2 ^ 47 + 1 / 2 ^ 53 * 100"
    using ey eq unfolding p53 p47 by (intro add_mono mult_right_mono) simp_all
  also have "\<dots> \<le> 1 / 2 ^ 45" by simp
  finally show ?thesis .
qed

subsection \<open>The percentage\<close>

text \<open>
  C1: the attendance percentage of a student is \<open>(P / N) * 100\<close> in Python's floating
  point, where \<open>P\<close> is the number of dates marked present, the dates that the attendance
  mapping takes to \<open>True\<close>, and \<open>N\<close> is the number of dates recorded, the domain of the
  mapping: the quotient rounded to the nearest double and then its product with 100
  rounded to the nearest double.  It is 0 when no date is recorded, and otherwise within
  \<open>2 ^ -45\<close> of the exact \<open>P / N * 100\<close>.
\<close>

theorem get_attendance_percentage_spec:
  assumes "distinct (map fst (attendance s))"
  shows "get_attendance_percentage s =
     (if dom (map_of (attendance s)) = {} then 0
      else float_mul
             (float_div (int (card {date. map_of (attendance s) date = Some True}))
                        (int (card (dom (map_of (attendance s)))))) 100) \<and>
     (dom (map_of (attendance s)) \<noteq> {} \<longrightarrow>
        \<bar>get_attendance_percentage s -
         of_nat (card {date. map_of (attendance s) date = Some True})
         / of_nat (card (dom (map_of (attendance s)))) * 100\<bar> \<le> 1 / 2 ^ 45)"
proof -
  let ?P = "card {date. map_of (attendance s) date = Some True}"
  let ?N = "card (dom (map_of (attendance s)))"
  have total: "length (attendance s) = ?N"
    using assms by (rule length_eq_card_dom)
  have present: "length (filter snd (attendance s)) = ?P"
    using assms by (rule present_days_eq_card)
  have empty: "dom (map_of (attendance s)) = {} \<longleftrightarrow> attendance s = []"
    by (cases "attendance s") auto
  show ?thesis
  proof (cases "attendance s = []")
    case True
    then show ?thesis
      using empty by (simp add: get_attendance_percentage_def)
  next
    case False
    then have "get_attendance_percentage s =
        float_mul (float_div (int (length (filter snd (attendance s))))
                             (int (length (attendance s)))) 100"
      by (simp add: get_attendance_percentage_def present_days_count Let_def)
    then have returned: "get_attendance_percentage s = float_mul (float_div (int ?P) (int ?N)) 100"
      by (simp only: total present)
    have "?P \<le> ?N"
      using present total length_filter_le [of snd "attendance s"] by simp
    moreover have "0 < length (attendance s)"
      using False by simp
    then have "0 < ?N"
      by (simp only: total)
    ultimately have "\<bar>float_mul (float_div (int ?P) (int ?N)) 100 -
        of_int (int ?P) / of_int (int ?N) * 100\<bar> \<le> 1 / 2 ^ 45"
      by (intro float_percentage_error) simp_all
    then show ?thesis
      using returned False empty by simp
  qed
qed

theorem get_attendance_percentage_spec_witness:
  "distinct (map fst (attendance \<lparr>student_id = ''S1'', name = ''Ann'', attendance = [(''2024-01-01'', True), (''2024-01-02'', False)]\<rparr>)) \<and>
   get_attendance_percentage \<lparr>student_id = ''S1'', name = ''Ann'', attendance = [(''2024-01-01'', True), (''2024-01-02'', False)]\<rparr> = 50 \<and>
   distinct (map fst (attendance (Student ''S1'' ''Ann''))) \<and>
   get_attendance_percentage (Student ''S1'' ''Ann'') = 0"
proof -
  let ?s = "\<lparr>student_id = ''S1'', name = ''Ann'', attendance = [(''2024-01-01'', True), (''2024-01-02'', False)]\<rparr>"
  have marked: "distinct (map fst (attendance ?s))"
    by simp
  have half: "get_attendance_percentage ?s = 50"
    by code_simp
  have unmarked: "distinct (map fst (attendance (Student ''S1'' ''Ann'')))"
    by (rule Student_dates_distinct)
  have zero: "get_attendance_percentage (Student ''S1'' ''Ann'') = 0"
    by (simp add: get_attendance_percentage_def Student_def)
  note spec = get_attendance_percentage_spec [OF marked] get_attendance_percentage_spec [OF unmarked]
  from spec marked half unmarked zero show ?thesis
    by - (intro conjI, assumption+)
qed

text \<open>
  With exact division and product the percentage of 11 dates present out of 20 would be
  55; the program returns the double next above 55.
\<close>

theorem get_attendance_percentage_not_exact:
  "distinct (map fst (attendance \<lparr>student_id = ''S1'', name = ''Ann'', attendance = [(''2024-01-01'', True), (''2024-01-02'', True), (''2024-01-03'', True), (''2024-01-04'', True), (''2024-01-05'', True), (''2024-01-06'', True), (''2024-01-07'', True), (''2024-01-08'', True), (''2024-01-09'', True), (''2024-01-10'', True), (''2024-01-11'', True), (''2024-01-12'', False), (''2024-01-13'', False), (''2024-01-14'', False), (''2024-01-15'', False), (''2024-01-16'', False), (''2024-01-17'', False), (''2024-01-18'', False), (''2024-01-19'', False), (''2024-01-20'', False)]\<rparr>)) \<and>
   length (attendance \<lparr>student_id = ''S1'', name = ''Ann'', attendance = [(''2024-01-01'', True), (''2024-01-02'', True), (''2024-01-03'', True), (''2024-01-04'', True), (''2024-01-05'', True), (''2024-01-06'', True), (''2024-01-07'', True), (''2024-01-08'', True), (''2024-01-09'', True), (''2024-01-10'', True), (''2024-01-11'', True), (''2024-01-12'', False), (''2024-01-13'', False), (''2024-01-14'', False), (''2024-01-15'', False), (''2024-01-16'', False), (''2024-01-17'', False), (''2024-01-18'', False), (''2024-01-19'', False), (''2024-01-20'', False)]\<rparr>) = 20 \<and>
   length (filter snd (attendance \<lparr>student_id = ''S1'', name = ''Ann'', attendance = [(''2024-01-01'', True), (''2024-01-02'', True), (''2024-01-03'', True), (''2024-01-04'', True), (''2024-01-05'', True), (''2024-01-06'', True), (''2024-01-07'', True), (''2024-01-08'', True), (''2024-01-09'', True), (''2024-01-10'', True), (''2024-01-11'', True), (''2024-01-12'', False), (''2024-01-13'', False), (''2024-01-14'', False), (''2024-01-15'', False), (''2024-01-16'', False), (''2024-01-17'', False), (''2024-01-18'', False), (''2024-01-19'', False), (''2024-01-20'', False)]\<rparr>)) = 11 \<and>
   get_attendance_percentage \<lparr>student_id = ''S1'', name = ''Ann'', attendance = [(''2024-01-01'', True), (''2024-01-02'', True), (''2024-01-03'', True), (''2024-01-04'', True), (''2024-01-05'', True), (''2024-01-06'', True), (''2024-01-07'', True), (''2024-01-08'', True), (''2024-01-09'', True), (''2024-01-10'', True), (''2024-01-11'', True), (''2024-01-12'', False), (''2024-01-13'', False), (''2024-01-14'', False), (''2024-01-15'', False), (''2024-01-16'', False), (''2024-01-17'', False), (''2024-01-18'', False), (''2024-01-19'', False), (''2024-01-20'', False)]\<rparr> = 7740561859543041 / 140737488355328 \<and>
   get_attendance_percentage \<lparr>student_id = ''S1'', name = ''Ann'', attendance = [(''2024-01-01'', True), (''2024-01-02'', True), (''2024-01-03'', True), (''2024-01-04'', True), (''2024-01-05'', True), (''2024-01-06'', True), (''2024-01-07'', True), (''2024-01-08'', True), (''2024-01-09'', True), (''2024-01-10'', True), (''2024-01-11'', True), (''2024-01-12'', False), (''2024-01-13'', False), (''2024-01-14'', False), (''2024-01-15'', False), (''2024-01-16'', False), (''2024-01-17'', False), (''2024-01-18'', False), (''2024-01-19'', False), (''2024-01-20'', False)]\<rparr> \<noteq> 11 / 20 * 100"
proof -
  let ?s = "\<lparr>student_id = ''S1'', name = ''Ann'', attendance = [(''2024-01-01'', True), (''2024-01-02'', True), (''2024-01-03'', True), (''2024-01-04'', True), (''2024-01-05'', True), (''2024-01-06'', True), (''2024-01-07'', True), (''2024-01-08'', True), (''2024-01-09'', True), (''2024-01-10'', True), (''2024-01-11'', True), (''2024-01-12'', False), (''2024-01-13'', False), (''2024-01-14'', False), (''2024-01-15'', False), (''2024-01-16'', False), (''2024-01-17'', False), (''2024-01-18'', False), (''2024-01-19'', False), (''2024-01-20'', False)]\<rparr>"
  have "distinct (map fst (attendance ?s))"
    by simp
  moreover have "length (attendance ?s) = 20" "length (filter snd (attendance ?s)) = 11"
    by simp_all
  moreover have float: "get_attendance_percentage ?s = 7740561859543041 / 140737488355328"
    by code_simp
  moreover have "get_attendance_percentage ?s \<noteq> 11 / 20 * 100"
    unfolding float by simp
  ultimately show ?thesis
    by - (intro conjI, assumption+)
qed

section \<open>add_student\<close>

text \<open>
  C6: \<open>add_student\<close> with an id that is already a key returns \<open>False\<close> and returns
  the roster as it was, so the student stored under the id, and its name, stay; with a
  fresh id it returns \<open>True\<close> and the roster is the old one followed by a student with
  that id, that name and an empty attendance mapping.
\<close>

theorem add_student_spec:
  "(dict_contains sid students \<longrightarrow>
      fst (add_student students sid nm) = False \<and>
      snd (snd (add_student students sid nm)) = students) \<and>
   (\<not> dict_contains sid students \<longrightarrow>
      fst (add_student students sid nm) = True \<and>
      snd (snd (add_student students sid nm)) =
        students @ [(sid, \<lparr>student_id = sid, name = nm, attendance = []\<rparr>)] \<and>
      map_of (snd (snd (add_student students sid nm))) sid =
        Some \<lparr>student_id = sid, name = nm, attendance = []\<rparr>)"
proof -
  have "\<not> dict_contains sid students \<Longrightarrow>
          dict_set sid (Student sid nm) students = students @ [(sid, Student sid nm)]"
    by (simp add: dict_contains_def dict_keys_def dict_set_fresh)
  moreover have "map_of (dict_set sid (Student sid nm) students) sid = Some (Student sid nm)"
    by (simp add: map_of_dict_set)
  ultimately show ?thesis
    by (auto simp: add_student_def Student_def)
qed

theorem add_student_spec_witness:
  "dict_contains ''S1'' (snd (snd (add_student Manager_init ''S1'' ''Ann''))) \<and>
   \<not> dict_contains ''S1'' Manager_init \<and>
   add_student (snd (snd (add_student Manager_init ''S1'' ''Ann''))) ''S1'' ''Bob'' =
     (False, [''[WARN] Student S1 already exists.''],
      [(''S1'', \<lparr>student_id = ''S1'', name = ''Ann'', attendance = []\<rparr>)]) \<and>
   add_student Manager_init ''S1'' ''Ann'' =
     (True, [''[INFO] Student Ann added with ID S1.''],
      [(''S1'', \<lparr>student_id = ''S1'', name = ''Ann'', attendance = []\<rparr>)])"
  using add_student_spec [of "''S1''" "snd (snd (add_student Manager_init ''S1'' ''Ann''))" "''Bob''"]
    add_student_spec [of "''S1''" Manager_init "''Ann''"]
  by (simp add: add_student_def dict_contains_def dict_keys_def Manager_init_def Student_def)

section \<open>mark_attendance\<close>

lemma Student_mark_attendance_lookup:
  "map_of (attendance (Student_mark_attendance today s (Some date) present)) date = Some present"
  by (simp add: Student_mark_attendance_def map_of_dict_set)

lemma mark_attendance_known:
  assumes "map_of students sid = Some s"
  shows "mark_attendance today students sid present date =
    (True, [''[INFO] Attendance marked for '' @ sid @ ''.''],
     dict_set sid (Student_mark_attendance today s date present) students)"
  using assms by (simp add: mark_attendance_def)

text \<open>
  An unknown id in the in-memory manager: \<open>mark_attendance\<close> prints the error line,
  returns \<open>False\<close> and leaves the roster as it was.
\<close>

lemma mark_attendance_unknown:
  assumes "\<not> dict_contains sid students"
  shows "mark_attendance today students sid present date =
    (False, [''[ERROR] Student ID '' @ sid @ '' not found.''], students)"
proof -
  have "map_of students sid = None"
    using assms by (simp add: dict_contains_def dict_keys_def map_of_eq_None_iff)
  then show ?thesis by (simp add: mark_attendance_def)
qed

lemma attendance_table_after_mark:
  "attendance_table (snd (DB_mark_attendance db sid date present)) =
     filter (\<lambda>(s, d, p). \<not> (s = sid \<and> d = date)) (attendance_table db)
     @ [(sid, date, if present then 1 else 0)]"
  by (simp add: DB_mark_attendance_def foreign_keys_def)

text \<open>
  C7: two calls of \<open>mark_attendance\<close> for the same id and date leave the value of the
  later call.  For a \<open>Student\<close>, and for a student of the manager's roster, the
  attendance mapping then takes the date to the second value.  In the database the
  \<open>attendance\<close> table then holds one row for the key, with the second value as 0 or 1.
\<close>

theorem mark_attendance_last_write_wins:
  "map_of (attendance (Student_mark_attendance today2
      (Student_mark_attendance today1 s (Some date) p1) (Some date) p2)) date = Some p2 \<and>
   (map_of students sid = Some s \<longrightarrow>
      (\<exists>s'. map_of (snd (snd (mark_attendance today2
                 (snd (snd (mark_attendance today1 students sid p1 (Some date))))
                 sid p2 (Some date)))) sid = Some s' \<and>
            map_of (attendance s') date = Some p2)) \<and>
   [p. (k, d, p) \<leftarrow> attendance_table (snd (DB_mark_attendance
          (snd (DB_mark_attendance db sid date p1)) sid date p2)), k = sid \<and> d = date]
     = [if p2 then 1 else 0]"
proof (intro conjI impI)
  show "map_of (attendance (Student_mark_attendance today2
      (Student_mark_attendance today1 s (Some date) p1) (Some date) p2)) date = Some p2"
    by (rule Student_mark_attendance_lookup)
next
  assume known: "map_of students sid = Some s"
  let ?s1 = "Student_mark_attendance today1 s (Some date) p1"
  let ?m1 = "dict_set sid ?s1 students"
  have m1: "snd (snd (mark_attendance today1 students sid p1 (Some date))) = ?m1"
    using known by (simp add: mark_attendance_known)
  have "map_of ?m1 sid = Some ?s1"
    by (simp add: map_of_dict_set)
  then have "snd (snd (mark_attendance today2 ?m1 sid p2 (Some date))) =
      dict_set sid (Student_mark_attendance today2 ?s1 (Some date) p2) ?m1"
    by (simp add: mark_attendance_known)
  then have "map_of (snd (snd (mark_attendance today2 ?m1 sid p2 (Some date)))) sid =
      Some (Student_mark_attendance today2 ?s1 (Some date) p2)"
    by (simp add: map_of_dict_set)
  then show "\<exists>s'. map_of (snd (snd (mark_attendance today2
                 (snd (snd (mark_attendance today1 students sid p1 (Some date))))
                 sid p2 (Some date)))) sid = Some s' \<and>
            map_of (attendance s') date = Some p2"
    using m1 Student_mark_attendance_lookup by simp
next
  have no_key: "[p. (k, d, p) \<leftarrow> filter (\<lambda>(k, d, p). \<not> (k = sid \<and> d = date)) t, k = sid \<and> d = date] = []"
    for t :: "(string \<times> string \<times> int) list"
    by (induction t) auto
  show "[p. (k, d, p) \<leftarrow> attendance_table (snd (DB_mark_attendance
          (snd (DB_mark_attendance db sid date p1)) sid date p2)), k = sid \<and> d = date]
     = [if p2 then 1 else 0]"
    by (simp add: attendance_table_after_mark no_key)
qed

theorem mark_attendance_last_write_wins_witness:
  "map_of [(''S1'', Student ''S1'' ''Ann'')] ''S1'' = Some (Student ''S1'' ''Ann'') \<and>
   snd (snd (mark_attendance ''2024-01-01''
      (snd (snd (mark_attendance ''2024-01-01'' [(''S1'', Student ''S1'' ''Ann'')] ''S1'' True
         (Some ''2024-01-01''))))
      ''S1'' False (Some ''2024-01-01''))) =
     [(''S1'', \<lparr>student_id = ''S1'', name = ''Ann'', attendance = [(''2024-01-01'', False)]\<rparr>)] \<and>
   attendance_table (snd (DB_mark_attendance
      (snd (DB_mark_attendance DB_init ''S1'' ''2024-01-01'' True)) ''S1'' ''2024-01-01'' False)) =
     [(''S1'', ''2024-01-01'', 0)]"
  using mark_attendance_last_write_wins [of "''2024-01-01''" "''2024-01-01''"
      "Student ''S1'' ''Ann''" "''2024-01-01''" True False "[(''S1'', Student ''S1'' ''Ann'')]"
      "''S1''" DB_init]
  by (simp add: mark_attendance_def Student_mark_attendance_def Student_def
      attendance_table_after_mark DB_init_def)

text \<open>
  C3: an operation that names an unknown student id reports the failure and changes
  nothing.  The in-memory manager does so (\<open>mark_attendance_unknown\<close>).  The database
  does not: on the connection as the program opens it, \<open>mark_attendance\<close> for an id
  that is not in the \<open>students\<close> table prints nothing and inserts the row.
\<close>

theorem DB_mark_attendance_unknown_student:
  "DB_mark_attendance DB_init ''S404'' ''2024-01-01'' True =
     ([], \<lparr>users_table = [], students_table = [],
           attendance_table = [(''S404'', ''2024-01-01'', 1)]\<rparr>)"
  by (simp add: DB_mark_attendance_def DB_init_def foreign_keys_def)

section \<open>authenticate\<close>

lemma DB_add_user_keeps_usernames_distinct:
  "distinct (map fst (users_table db)) \<Longrightarrow>
   distinct (map fst (users_table (snd (DB_add_user db username password))))"
  by (simp add: DB_add_user_def)

lemma fetchone_None: "fetchone rows = None \<longleftrightarrow> rows = []"
  by (cases rows) (simp_all add: fetchone_def)

text \<open>
  C8: \<open>authenticate\<close> returns \<open>True\<close> exactly when the \<open>users\<close> table holds the pair of
  that username and that password.  In a table where usernames are unique, as the
  primary key makes them, a stored username with another password gives \<open>False\<close>.
\<close>

theorem DB_authenticate_spec:
  "(DB_authenticate db username password \<longleftrightarrow> (username, password) \<in> set (users_table db)) \<and>
   (distinct (map fst (users_table db)) \<and> (username, stored) \<in> set (users_table db) \<and>
      password \<noteq> stored \<longrightarrow> \<not> DB_authenticate db username password)"
proof -
  have iff: "DB_authenticate db username password \<longleftrightarrow> (username, password) \<in> set (users_table db)"
    by (auto simp: DB_authenticate_def fetchone_None filter_empty_conv)
  have "\<not> DB_authenticate db username password"
    if "distinct (map fst (users_table db))" "(username, stored) \<in> set (users_table db)"
      "password \<noteq> stored"
    using that iff by (metis eq_key_imp_eq_value)
  with iff show ?thesis by blast
qed

theorem DB_authenticate_spec_witness:
  "distinct (map fst (users_table (snd (DB_add_user DB_init ''admin'' ''secret'')))) \<and>
   (''admin'', ''secret'') \<in> set (users_table (snd (DB_add_user DB_init ''admin'' ''secret''))) \<and>
   ''Secret'' \<noteq> ''secret'' \<and>
   DB_authenticate (snd (DB_add_user DB_init ''admin'' ''secret'')) ''admin'' ''secret'' \<and>
   \<not> DB_authenticate (snd (DB_add_user DB_init ''admin'' ''secret'')) ''admin'' ''Secret'' \<and>
   \<not> DB_authenticate (snd (DB_add_user DB_init ''admin'' ''secret'')) ''root'' ''secret''"
  using DB_authenticate_spec [of "snd (DB_add_user DB_init ''admin'' ''secret'')" "''admin''"
      "''Secret''" "''secret''"]
    DB_authenticate_spec [of "snd (DB_add_user DB_init ''admin'' ''secret'')" "''admin''"
      "''secret''" "''secret''"]
    DB_authenticate_spec [of "snd (DB_add_user DB_init ''admin'' ''secret'')" "''root''"
      "''secret''" "''secret''"]
  by (simp add: DB_add_user_def DB_init_def)


section \<open>load_from_csv: the loop over the rows\<close>

lemma dict_set_twice: "dict_set k v' (dict_set k v d) = dict_set k v' d"
  by (induction d) auto

lemma map_of_None_iff_not_contains: "map_of d k = None \<longleftrightarrow> \<not> dict_contains k d"
  by (simp add: dict_contains_def dict_keys_def map_of_eq_None_iff)

lemma load_row_four:
  assumes "length row = 4"
  shows "load_row today students row =
     dict_set (row ! 0)
       (Student_mark_attendance today (row_student students row) (Some (row ! 2))
          (row ! 3 = ''True''))
       students"
proof (cases "map_of students (row ! 0)")
  case None
  then have "\<not> dict_contains (row ! 0) students"
    by (simp add: map_of_None_iff_not_contains)
  then show ?thesis
    using assms None
    by (simp add: load_row_def row_student_def map_of_dict_set dict_set_twice Let_def)
next
  case (Some s)
  then have "dict_contains (row ! 0) students"
    using map_of_None_iff_not_contains [of students "row ! 0"] by simp
  then show ?thesis
    using assms Some by (simp add: load_row_def row_student_def Let_def)
qed

lemma load_row_other: "length row \<noteq> 4 \<Longrightarrow> load_row today students row = students"
  by (simp add: load_row_def)

lemma load_rows_append:
  "load_rows today students (rows @ rows') = load_rows today (load_rows today students rows) rows'"
  by (simp add: load_rows_def)

lemma load_rows_Cons:
  "load_rows today students (row # rows) = load_rows today (load_row today students row) rows"
  by (simp add: load_rows_def)

lemma load_rows_filter:
  "load_rows today students rows = load_rows today students (filter (\<lambda>row. length row = 4) rows)"
proof (induction rows arbitrary: students)
  case Nil
  show ?case by simp
next
  case (Cons row rows)
  show ?case
  proof (cases "length row = 4")
    case True
    then show ?thesis
      using Cons.IH [of "load_row today students row"] by (simp add: load_rows_Cons)
  next
    case False
    then show ?thesis
      using Cons.IH [of students] by (simp add: load_rows_Cons load_row_other)
  qed
qed

lemma load_from_csv_rows:
  "snd (load_from_csv today fs filename students) = load_rows today students (file_rows fs filename)"
  by (simp add: load_from_csv_def file_rows_def load_rows_def split: option.splits prod.splits)

text \<open>
  One pass of the loop body over a row of four fields: the student under the row's id
  then has the row's date mapped to the truth value of \<open>present == 'True'\<close>.
\<close>

lemma load_row_present_field:
  "\<exists>s. map_of (load_row today students [sid, nm, date, present]) sid = Some s \<and>
       map_of (attendance s) date = Some (present = ''True'')"
  by (simp add: load_row_four map_of_dict_set Student_mark_attendance_lookup)

text \<open>
  C5: a row whose number of fields is not 4 leaves the roster as it is, and the loop
  goes on: loading a list of rows that has such a row in it is loading the rows before
  it and then the rows after it.  So a load is the load of its rows of four fields.
\<close>

theorem load_skips_rows_not_of_four_fields:
  "(length row \<noteq> 4 \<longrightarrow>
      load_row today students row = students \<and>
      load_rows today students (before @ row # after) =
        load_rows today (load_rows today students before) after) \<and>
   snd (load_from_csv today fs filename students) =
     load_rows today students (filter (\<lambda>row. length row = 4) (file_rows fs filename))"
proof -
  have "load_rows today students (before @ row # after) =
        load_rows today (load_rows today students before) after" if "length row \<noteq> 4"
    using that by (simp add: load_rows_append load_rows_Cons load_row_other)
  moreover have "snd (load_from_csv today fs filename students) =
     load_rows today students (filter (\<lambda>row. length row = 4) (file_rows fs filename))"
    using load_rows_filter [of today students "file_rows fs filename"]
    by (simp add: load_from_csv_rows)
  ultimately show ?thesis
    by (simp add: load_row_other)
qed

theorem load_skips_rows_not_of_four_fields_witness:
  "length [''S2'', ''Bob'', ''2024-01-01''] \<noteq> 4 \<and>
   load_rows ''2024-01-09'' Manager_init
     ([[''S1'', ''Ann'', ''2024-01-01'', ''True'']] @ [''S2'', ''Bob'', ''2024-01-01''] #
      [[''S3'', ''Cy'', ''2024-01-01'', ''False'', ''x''], [], [''S1'', ''Ann'', ''2024-01-02'', ''False'']]) =
   [(''S1'', \<lparr>student_id = ''S1'', name = ''Ann'',
              attendance = [(''2024-01-01'', True), (''2024-01-02'', False)]\<rparr>)]"
  using load_skips_rows_not_of_four_fields [of "[''S2'', ''Bob'', ''2024-01-01'']" "''2024-01-09''"
      Manager_init "[[''S1'', ''Ann'', ''2024-01-01'', ''True'']]"
      "[[''S3'', ''Cy'', ''2024-01-01'', ''False'', ''x''], [], [''S1'', ''Ann'', ''2024-01-02'', ''False'']]"]
  by (simp add: load_rows_def load_row_def Manager_init_def dict_contains_def dict_keys_def
      Student_def Student_mark_attendance_def Let_def)

section \<open>load_from_csv merges into the roster\<close>


lemma Student_mark_attendance_fields:
  "student_id (Student_mark_attendance today s date present) = student_id s"
  "name (Student_mark_attendance today s date present) = name s"
  by (simp_all add: Student_mark_attendance_def)

lemma Student_mark_attendance_map:
  "map_of (attendance (Student_mark_attendance today s (Some date) present)) =
     (map_of (attendance s))(date \<mapsto> present)"
  by (simp add: Student_mark_attendance_def map_of_dict_set)

lemma load_row_map_of:
  "map_of (load_row today students row) sid =
     (if length row = 4 \<and> row ! 0 = sid
      then Some (Student_mark_attendance today (row_student students row) (Some (row ! 2))
                   (row ! 3 = ''True''))
      else map_of students sid)"
  by (cases "length row = 4") (simp_all add: load_row_four load_row_other map_of_dict_set)

lemma load_row_keys:
  "\<exists>new. map fst (load_row today students row) = map fst students @ new"
  by (cases "length row = 4") (simp_all add: load_row_four load_row_other keys_dict_set)

lemma load_rows_keys:
  "\<exists>new. map fst (load_rows today students rows) = map fst students @ new"
proof (induction rows rule: rev_induct)
  case Nil
  show ?case by (simp add: load_rows_def)
next
  case (snoc row rows)
  then obtain new where "map fst (load_rows today students rows) = map fst students @ new"
    by blast
  moreover obtain new' where
    "map fst (load_row today (load_rows today students rows) row) =
       map fst (load_rows today students rows) @ new'"
    using load_row_keys by blast
  ultimately show ?case
    by (simp add: load_rows_append load_rows_Cons load_rows_def)
qed

lemma load_rows_known:
  assumes "map_of students sid = Some s"
  shows "\<exists>s'. map_of (load_rows today students rows) sid = Some s' \<and>
           student_id s' = student_id s \<and> name s' = name s \<and>
           (\<forall>date. map_of (attendance s') date = map_of (attendance s) date \<or>
              (\<exists>row\<in>set rows. length row = 4 \<and> row ! 0 = sid \<and> row ! 2 = date \<and>
                 map_of (attendance s') date = Some (row ! 3 = ''True'')))"
proof (induction rows rule: rev_induct)
  case Nil
  show ?case using assms by (simp add: load_rows_def)
next
  case (snoc row rows)
  then obtain s1 where s1: "map_of (load_rows today students rows) sid = Some s1"
    "student_id s1 = student_id s" "name s1 = name s"
    and dates: "\<And>date. map_of (attendance s1) date = map_of (attendance s) date \<or>
              (\<exists>row\<in>set rows. length row = 4 \<and> row ! 0 = sid \<and> row ! 2 = date \<and>
                 map_of (attendance s1) date = Some (row ! 3 = ''True''))"
    by blast
  have step: "load_rows today students (rows @ [row]) = load_row today (load_rows today students rows) row"
    by (simp add: load_rows_def)
  show ?case
  proof (cases "length row = 4 \<and> row ! 0 = sid")
    case True
    let ?s' = "Student_mark_attendance today s1 (Some (row ! 2)) (row ! 3 = ''True'')"
    have "row_student (load_rows today students rows) row = s1"
      using True s1 by (simp add: row_student_def)
    then have "map_of (load_rows today students (rows @ [row])) sid = Some ?s'"
      using True by (simp add: step load_row_map_of)
    moreover have "map_of (attendance ?s') date = map_of (attendance s) date \<or>
              (\<exists>r\<in>set (rows @ [row]). length r = 4 \<and> r ! 0 = sid \<and> r ! 2 = date \<and>
                 map_of (attendance ?s') date = Some (r ! 3 = ''True''))" for date
      using dates [of date] True by (auto simp: Student_mark_attendance_map)
    ultimately show ?thesis
      using s1 by (simp add: Student_mark_attendance_fields)
  next
    case False
    then have "map_of (load_rows today students (rows @ [row])) sid = Some s1"
      using s1 by (auto simp add: step load_row_map_of)
    moreover have "map_of (attendance s1) date = map_of (attendance s) date \<or>
              (\<exists>r\<in>set (rows @ [row]). length r = 4 \<and> r ! 0 = sid \<and> r ! 2 = date \<and>
                 map_of (attendance s1) date = Some (r ! 3 = ''True''))" for date
      using dates [of date] by auto
    ultimately show ?thesis
      using s1 by simp
  qed
qed

lemma load_rows_new:
  assumes "map_of students sid = None"
    and "map_of (load_rows today students rows) sid = Some s'"
  shows "student_id s' = sid \<and>
         (\<exists>row\<in>set rows. length row = 4 \<and> row ! 0 = sid \<and> name s' = row ! 1) \<and>
         (\<forall>date v. map_of (attendance s') date = Some v \<longrightarrow>
            (\<exists>row\<in>set rows. length row = 4 \<and> row ! 0 = sid \<and> row ! 2 = date \<and>
               v = (row ! 3 = ''True'')))"
  using assms(2)
proof (induction rows arbitrary: s' rule: rev_induct)
  case Nil
  then show ?case using assms(1) by (simp add: load_rows_def)
next
  case (snoc row rows)
  have step: "load_rows today students (rows @ [row]) = load_row today (load_rows today students rows) row"
    by (simp add: load_rows_def)
  let ?m1 = "load_rows today students rows"
  show ?case
  proof (cases "length row = 4 \<and> row ! 0 = sid")
    case False
    then have "map_of ?m1 sid = Some s'"
      using snoc.prems by (auto simp add: step load_row_map_of)
    from snoc.IH [OF this] show ?thesis by auto
  next
    case True
    then have s': "s' = Student_mark_attendance today (row_student ?m1 row) (Some (row ! 2)) (row ! 3 = ''True'')"
      using snoc.prems by (simp add: step load_row_map_of)
    show ?thesis
    proof (cases "map_of ?m1 sid")
      case None
      then have "row_student ?m1 row = Student sid (row ! 1)"
        using True by (simp add: row_student_def)
      then show ?thesis
        using True s' by (auto simp: Student_mark_attendance_map Student_mark_attendance_fields Student_def split: if_splits)
    next
      case (Some s1)
      then have rs: "row_student ?m1 row = s1"
        using True by (simp add: row_student_def)
      from snoc.IH [OF Some] show ?thesis
        using True s' rs by (auto simp: Student_mark_attendance_map Student_mark_attendance_fields split: if_splits)
    qed
  qed
qed


lemmas csv_eval =
  load_from_csv_def save_to_csv_def save_rows_def writerow_def join_append_def needs_quotes_def
  str_bool_def open_read_def csv_reader_def parse_line_def parse_process_char_def start_field_def
  parse_add_char_def parse_save_field_def then_state_def parse_reset_def field_limit_def
  load_rows_def load_row_def Manager_init_def dict_contains_def dict_keys_def Student_def
  Student_mark_attendance_def file_rows_def Let_def

text \<open>
  C10: \<open>load_from_csv\<close> merges the file into the roster.  The ids of the prior roster
  stay, in their order, with new ids after them.  A student of the prior roster keeps its
  id and its name, and each date of its attendance mapping is as before or is set by a
  row of four fields of the file with that id and that date.  A student under a new id
  has the name of a row with that id, and each entry of its attendance mapping is set by
  such a row.
\<close>

theorem load_from_csv_merges:
  "(\<exists>new. map fst (snd (load_from_csv today fs filename students)) = map fst students @ new) \<and>
   (\<forall>sid s. map_of students sid = Some s \<longrightarrow>
      (\<exists>s'. map_of (snd (load_from_csv today fs filename students)) sid = Some s' \<and>
            student_id s' = student_id s \<and> name s' = name s \<and>
            (\<forall>date. map_of (attendance s') date = map_of (attendance s) date \<or>
               (\<exists>row\<in>set (file_rows fs filename).
                  length row = 4 \<and> row ! 0 = sid \<and> row ! 2 = date \<and>
                  map_of (attendance s') date = Some (row ! 3 = ''True''))))) \<and>
   (\<forall>sid s'. map_of students sid = None \<and>
        map_of (snd (load_from_csv today fs filename students)) sid = Some s' \<longrightarrow>
      student_id s' = sid \<and>
      (\<exists>row\<in>set (file_rows fs filename). length row = 4 \<and> row ! 0 = sid \<and> name s' = row ! 1) \<and>
      (\<forall>date v. map_of (attendance s') date = Some v \<longrightarrow>
         (\<exists>row\<in>set (file_rows fs filename).
            length row = 4 \<and> row ! 0 = sid \<and> row ! 2 = date \<and> v = (row ! 3 = ''True''))))"
  unfolding load_from_csv_rows
  using load_rows_keys [of today students "file_rows fs filename"]
    load_rows_known [of students _ _ today "file_rows fs filename"]
    load_rows_new [of students _ today "file_rows fs filename"]
  by blast

theorem load_from_csv_merges_witness:
  "map_of [(''S1'', \<lparr>student_id = ''S1'', name = ''Ann'', attendance = [(''2024-01-01'', True)]\<rparr>)]
     ''S1'' = Some \<lparr>student_id = ''S1'', name = ''Ann'', attendance = [(''2024-01-01'', True)]\<rparr> \<and>
   map_of [(''S1'', \<lparr>student_id = ''S1'', name = ''Ann'', attendance = [(''2024-01-01'', True)]\<rparr>)]
     ''S2'' = None \<and>
   snd (load_from_csv ''2024-01-09''
     \<lparr>files = [''attendance_data.csv'' \<mapsto>
                 ''S1,Zed,2024-01-02,False'' @ [LF] @ ''S2,Bob,2024-01-01,True'' @ [LF]],
      write_fails = (\<lambda>p. None), read_fails = (\<lambda>p. None)\<rparr>
     ''attendance_data.csv''
     [(''S1'', \<lparr>student_id = ''S1'', name = ''Ann'', attendance = [(''2024-01-01'', True)]\<rparr>)]) =
   [(''S1'', \<lparr>student_id = ''S1'', name = ''Ann'',
              attendance = [(''2024-01-01'', True), (''2024-01-02'', False)]\<rparr>),
    (''S2'', \<lparr>student_id = ''S2'', name = ''Bob'', attendance = [(''2024-01-01'', True)]\<rparr>)]"
proof -
  let ?fs = "\<lparr>files = [''attendance_data.csv'' \<mapsto>
                 ''S1,Zed,2024-01-02,False'' @ [LF] @ ''S2,Bob,2024-01-01,True'' @ [LF]],
      write_fails = (\<lambda>p. None), read_fails = (\<lambda>p. None)\<rparr>"
  let ?m = "[(''S1'', \<lparr>student_id = ''S1'', name = ''Ann'', attendance = [(''2024-01-01'', True)]\<rparr>)]"
  let ?m' = "[(''S1'', \<lparr>student_id = ''S1'', name = ''Ann'',
              attendance = [(''2024-01-01'', True), (''2024-01-02'', False)]\<rparr>),
    (''S2'', \<lparr>student_id = ''S2'', name = ''Bob'', attendance = [(''2024-01-01'', True)]\<rparr>)]"
  have loaded: "snd (load_from_csv ''2024-01-09'' ?fs ''attendance_data.csv'' ?m) = ?m'"
    by (simp add: csv_eval)
  have known: "map_of ?m ''S1'' =
      Some \<lparr>student_id = ''S1'', name = ''Ann'', attendance = [(''2024-01-01'', True)]\<rparr>"
    by simp
  have new: "map_of ?m ''S2'' = None"
    by simp
  note kept = load_from_csv_merges [of "''2024-01-09''" ?fs "''attendance_data.csv''" ?m,
      THEN conjunct2, THEN conjunct1, rule_format, OF known]
  from kept known new loaded show ?thesis
    by - (intro conjI, assumption+)
qed

section \<open>load_from_csv: the fourth field\<close>

text \<open>
  C4: during \<open>load_from_csv\<close> a row of four fields is recorded as present exactly when
  its fourth field is the text \<open>True\<close>.  When the reader gives the row
  \<open>[sid, nm, date, present]\<close> for the file and no later row of four fields has the same
  id and date, then after \<open>load_from_csv\<close> the student under \<open>sid\<close> has \<open>date\<close> mapped to
  the truth value of \<open>present == 'True'\<close>; so \<open>true\<close> and \<open>1\<close> are recorded as \<open>False\<close>.
\<close>

theorem load_from_csv_present_only_True:
  assumes "file_rows fs filename = before @ [sid, nm, date, present] # after"
    and "\<forall>row\<in>set after. \<not> (length row = 4 \<and> row ! 0 = sid \<and> row ! 2 = date)"
  shows "\<exists>s. map_of (snd (load_from_csv today fs filename students)) sid = Some s \<and>
             map_of (attendance s) date = Some (present = ''True'')"
proof -
  let ?m1 = "load_rows today students before"
  let ?m2 = "load_row today ?m1 [sid, nm, date, present]"
  have loaded: "snd (load_from_csv today fs filename students) = load_rows today ?m2 after"
    using assms(1) by (simp add: load_from_csv_rows load_rows_append load_rows_Cons)
  obtain s2 where s2: "map_of ?m2 sid = Some s2"
    "map_of (attendance s2) date = Some (present = ''True'')"
    using load_row_present_field [of today ?m1 sid nm date present] by blast
  from load_rows_known [OF s2(1), of today after]
  obtain s' where s': "map_of (load_rows today ?m2 after) sid = Some s'"
    "\<And>d. map_of (attendance s') d = map_of (attendance s2) d \<or>
       (\<exists>row\<in>set after. length row = 4 \<and> row ! 0 = sid \<and> row ! 2 = d \<and>
          map_of (attendance s') d = Some (row ! 3 = ''True''))"
    by blast
  have "map_of (attendance s') date = map_of (attendance s2) date"
    using s'(2) [of date] assms(2) by blast
  then show ?thesis
    using loaded s'(1) s2(2) by simp
qed

theorem load_from_csv_present_only_True_witness:
  "file_rows
     \<lparr>files = [''attendance_data.csv'' \<mapsto>
                 ''S1,Ann,2024-01-01,True'' @ [LF] @ ''S1,Ann,2024-01-02,true'' @ [LF] @
                 ''S1,Ann,2024-01-03,1'' @ [LF]],
      write_fails = (\<lambda>p. None), read_fails = (\<lambda>p. None)\<rparr>
     ''attendance_data.csv'' =
   [[''S1'', ''Ann'', ''2024-01-01'', ''True'']] @ [''S1'', ''Ann'', ''2024-01-02'', ''true''] #
   [[''S1'', ''Ann'', ''2024-01-03'', ''1'']] \<and>
   snd (load_from_csv ''2024-01-09''
     \<lparr>files = [''attendance_data.csv'' \<mapsto>
                 ''S1,Ann,2024-01-01,True'' @ [LF] @ ''S1,Ann,2024-01-02,true'' @ [LF] @
                 ''S1,Ann,2024-01-03,1'' @ [LF]],
      write_fails = (\<lambda>p. None), read_fails = (\<lambda>p. None)\<rparr>
     ''attendance_data.csv'' Manager_init) =
   [(''S1'', \<lparr>student_id = ''S1'', name = ''Ann'',
              attendance = [(''2024-01-01'', True), (''2024-01-02'', False),
                            (''2024-01-03'', False)]\<rparr>)]"
proof -
  let ?fs = "\<lparr>files = [''attendance_data.csv'' \<mapsto>
                 ''S1,Ann,2024-01-01,True'' @ [LF] @ ''S1,Ann,2024-01-02,true'' @ [LF] @
                 ''S1,Ann,2024-01-03,1'' @ [LF]],
      write_fails = (\<lambda>p. None), read_fails = (\<lambda>p. None)\<rparr>"
  have rows: "file_rows ?fs ''attendance_data.csv'' =
      [[''S1'', ''Ann'', ''2024-01-01'', ''True'']] @ [''S1'', ''Ann'', ''2024-01-02'', ''true''] #
      [[''S1'', ''Ann'', ''2024-01-03'', ''1'']]"
    by (simp add: csv_eval)
  have later: "\<forall>row\<in>set [[''S1'', ''Ann'', ''2024-01-03'', ''1'']].
      \<not> (length row = 4 \<and> row ! 0 = ''S1'' \<and> row ! 2 = ''2024-01-02'')"
    by simp
  have loaded: "snd (load_from_csv ''2024-01-09'' ?fs ''attendance_data.csv'' Manager_init) =
      [(''S1'', \<lparr>student_id = ''S1'', name = ''Ann'',
                 attendance = [(''2024-01-01'', True), (''2024-01-02'', False),
                               (''2024-01-03'', False)]\<rparr>)]"
    by (simp add: csv_eval)
  note recorded = load_from_csv_present_only_True [OF rows later, of "''2024-01-09''" Manager_init]
  from recorded rows loaded show ?thesis
    by - (intro conjI, assumption+)
qed

section \<open>Rosters that the program builds\<close>

text \<open>
  Every method keeps the roster a dictionary of students that are stored under their own
  id and whose attendance mappings are dictionaries.
\<close>

lemma list_all_dict_set:
  "list_all P d \<Longrightarrow> P (k, v) \<Longrightarrow> list_all P (dict_set k v d)"
  by (induction d) auto

lemma roster_ok_dict_set:
  assumes "roster_ok students" "student_id s = sid" "distinct (map fst (attendance s))"
  shows "roster_ok (dict_set sid s students)"
  using assms by (simp add: roster_ok_def distinct_dict_set list_all_dict_set)

lemma roster_ok_lookup:
  assumes "roster_ok students" "map_of students sid = Some s"
  shows "student_id s = sid \<and> distinct (map fst (attendance s))"
proof -
  have "(sid, s) \<in> set students"
    using assms(2) by (rule map_of_SomeD)
  then show ?thesis
    using assms(1) by (auto simp: roster_ok_def list_all_iff)
qed

lemma roster_ok_init: "roster_ok Manager_init"
  by (simp add: roster_ok_def Manager_init_def)

lemma roster_ok_add_student:
  "roster_ok students \<Longrightarrow> roster_ok (snd (snd (add_student students sid nm)))"
  by (simp add: add_student_def roster_ok_dict_set Student_def)

lemma roster_ok_mark_attendance:
  assumes "roster_ok students"
  shows "roster_ok (snd (snd (mark_attendance today students sid present date)))"
proof (cases "map_of students sid")
  case None
  then show ?thesis using assms by (simp add: mark_attendance_def)
next
  case (Some s)
  then have "student_id s = sid" "distinct (map fst (attendance s))"
    using roster_ok_lookup [OF assms] by auto
  then show ?thesis
    using assms Some
    by (simp add: mark_attendance_def roster_ok_dict_set Student_mark_attendance_fields
        Student_mark_attendance_dates_distinct)
qed

lemma roster_ok_load_row:
  assumes "roster_ok students"
  shows "roster_ok (load_row today students row)"
proof (cases "length row = 4")
  case False
  then show ?thesis using assms by (simp add: load_row_other)
next
  case True
  have "student_id (row_student students row) = row ! 0 \<and>
        distinct (map fst (attendance (row_student students row)))"
    using roster_ok_lookup [OF assms]
    by (auto simp: row_student_def Student_def split: option.splits)
  then show ?thesis
    using assms True
    by (simp add: load_row_four roster_ok_dict_set Student_mark_attendance_fields
        Student_mark_attendance_dates_distinct)
qed

lemma roster_ok_load_rows:
  "roster_ok students \<Longrightarrow> roster_ok (load_rows today students rows)"
  by (induction rows arbitrary: students) (simp_all add: load_rows_Cons roster_ok_load_row load_rows_def)

lemma roster_ok_load_from_csv:
  "roster_ok students \<Longrightarrow> roster_ok (snd (load_from_csv today fs filename students))"
  by (simp add: load_from_csv_rows roster_ok_load_rows)

section \<open>Saving and loading again: the rows\<close>

text \<open>
  At the level of rows the two loops fit together: loading the rows that \<open>save_to_csv\<close>
  hands to the writer into an empty manager gives the roster again, in its order, less
  the students without marks.
\<close>

lemma str_bool_True: "str_bool p = ''True'' \<longleftrightarrow> p"
  by (simp add: str_bool_def)

lemma dict_set_last: "k \<notin> set (map fst d) \<Longrightarrow> dict_set k v (d @ [(k, v0)]) = d @ [(k, v)]"
  by (induction d) auto

lemma load_row_new_student:
  assumes "sid \<notin> set (map fst students)"
  shows "load_row today students [sid, nm, date, str_bool p] =
     students @ [(sid, \<lparr>student_id = sid, name = nm, attendance = [(date, p)]\<rparr>)]"
proof -
  have "map_of students sid = None"
    using assms by (simp add: map_of_eq_None_iff)
  then show ?thesis
    using assms
    by (simp add: load_row_four row_student_def dict_set_fresh Student_def
        Student_mark_attendance_def str_bool_True)
qed

lemma load_row_last_student:
  assumes "sid \<notin> set (map fst students)" "date \<notin> set (map fst att)"
  shows "load_row today (students @ [(sid, \<lparr>student_id = sid, name = nm, attendance = att\<rparr>)])
           [sid, nm', date, str_bool p] =
     students @ [(sid, \<lparr>student_id = sid, name = nm, attendance = att @ [(date, p)]\<rparr>)]"
proof -
  have "map_of (students @ [(sid, \<lparr>student_id = sid, name = nm, attendance = att\<rparr>)]) sid =
      Some \<lparr>student_id = sid, name = nm, attendance = att\<rparr>"
  proof -
    have "map_of students sid = None"
      using assms(1) by (simp add: map_of_eq_None_iff)
    then show ?thesis
      by (simp add: map_add_def)
  qed
  then show ?thesis
    using assms
    by (simp add: load_row_four row_student_def dict_set_last dict_set_fresh
        Student_mark_attendance_def str_bool_True)
qed

lemma load_rows_of_student:
  assumes "sid \<notin> set (map fst students)" "distinct (map fst att)" "att \<noteq> []"
  shows "load_rows today students [[sid, nm, date, str_bool p]. (date, p) \<leftarrow> att] =
     students @ [(sid, \<lparr>student_id = sid, name = nm, attendance = att\<rparr>)]"
  using assms(2,3)
proof (induction att rule: rev_induct)
  case Nil
  then show ?case by simp
next
  case (snoc x att)
  obtain date p where x: "x = (date, p)" by (cases x)
  show ?case
  proof (cases "att = []")
    case True
    then show ?thesis
      using assms(1) x by (simp add: load_rows_def load_row_new_student)
  next
    case False
    have "distinct (map fst att)" "date \<notin> set (map fst att)"
      using snoc.prems(1) x by auto
    then show ?thesis
      using snoc.IH False assms(1) x
      by (simp add: load_rows_append load_rows_Cons load_row_last_student)
        (simp add: load_rows_def)
  qed
qed

lemma save_rows_Cons:
  "save_rows ((sid, s) # students) =
     [[sid, name s, date, str_bool p]. (date, p) \<leftarrow> attendance s] @ save_rows students"
  by (simp add: save_rows_def)

lemma load_rows_save_rows_after:
  assumes "distinct (map fst loaded @ map fst students)"
    and "list_all (\<lambda>(sid, s). student_id s = sid \<and> distinct (map fst (attendance s))) students"
  shows "load_rows today loaded (save_rows students) =
     loaded @ filter (\<lambda>(sid, s). attendance s \<noteq> []) students"
  using assms
proof (induction students arbitrary: loaded)
  case Nil
  show ?case by (simp add: save_rows_def load_rows_def)
next
  case (Cons x students)
  obtain sid s where x: "x = (sid, s)" by (cases x)
  have s: "student_id s = sid" "distinct (map fst (attendance s))"
    and rest: "list_all (\<lambda>(sid, s). student_id s = sid \<and> distinct (map fst (attendance s))) students"
    using Cons.prems(2) x by auto
  have fresh: "sid \<notin> set (map fst loaded)"
    using Cons.prems(1) x by auto
  show ?case
  proof (cases "attendance s = []")
    case True
    have "distinct (map fst loaded @ map fst students)"
      using Cons.prems(1) x by auto
    from Cons.IH [OF this rest] show ?thesis
      using True x by (simp add: save_rows_Cons)
  next
    case False
    have s_eq: "\<lparr>student_id = sid, name = name s, attendance = attendance s\<rparr> = s"
      using s(1) by simp
    have step: "load_rows today loaded [[sid, name s, date, str_bool p]. (date, p) \<leftarrow> attendance s] =
        loaded @ [(sid, s)]"
      using load_rows_of_student [OF fresh s(2) False, of today "name s"] s_eq by simp
    have "distinct (map fst (loaded @ [(sid, s)]) @ map fst students)"
      using Cons.prems(1) x by auto
    from Cons.IH [OF this rest] show ?thesis
      using False x step by (simp add: save_rows_Cons load_rows_append)
  qed
qed

lemma load_rows_save_rows:
  assumes "roster_ok students"
  shows "load_rows today Manager_init (save_rows students) =
     filter (\<lambda>(sid, s). attendance s \<noteq> []) students"
  using load_rows_save_rows_after [of "[]" students today] assms
  by (simp add: roster_ok_def Manager_init_def)

lemma records_filter_marked:
  "records (filter (\<lambda>(sid, s). attendance s \<noteq> []) students) = records students"
  by (induction students) (auto simp: records_def)

lemma records_load_rows_save_rows:
  "roster_ok students \<Longrightarrow> records (load_rows today Manager_init (save_rows students)) = records students"
  by (simp add: load_rows_save_rows records_filter_marked)

lemma save_rows_unmarked:
  assumes "roster_ok students" "map_of students sid = Some s" "attendance s = []"
  shows "sid \<notin> set (map (\<lambda>row. row ! 0) (save_rows students)) \<and>
         \<not> dict_contains sid (load_rows today Manager_init (save_rows students))"
proof -
  have "s' = s" if "(sid, s') \<in> set students" for s'
    using that assms(1,2) by (simp add: roster_ok_def)
  then have "sid \<notin> set (map (\<lambda>row. row ! 0) (save_rows students))"
    using assms(3) by (auto simp: save_rows_def)
  moreover have "\<not> dict_contains sid (filter (\<lambda>(sid, s). attendance s \<noteq> []) students)"
    using \<open>\<And>s'. (sid, s') \<in> set students \<Longrightarrow> s' = s\<close> assms(3)
    by (auto simp: dict_contains_def dict_keys_def)
  ultimately show ?thesis
    using assms(1) by (simp add: load_rows_save_rows)
qed

section \<open>Saving and loading again: the file\<close>

text \<open>
  The reader applied to the lines of a text is the reader fed character by character.
\<close>

lemma parse_chars_snoc:
  "parse_chars r (xs @ [c]) =
     (case parse_chars r xs of Inl e \<Rightarrow> Inl e | Inr r' \<Rightarrow> parse_process_char r' (Ch c))"
  by (induction xs arbitrary: r) (auto split: sum.splits)

lemma reader_rows_file_lines:
  assumes "content = [] \<longrightarrow> cur = []" "content \<noteq> [] \<longrightarrow> last content = LF"
  shows "reader_rows r (file_lines cur content) =
     (case parse_chars r cur of Inl e \<Rightarrow> ([], Some e) | Inr rc \<Rightarrow> feed rc content)"
  using assms
proof (induction content arbitrary: cur r)
  case Nil
  then show ?case by simp
next
  case (Cons c cs)
  show ?case
  proof (cases "c = LF")
    case True
    have IH: "reader_rows r' (file_lines [] cs) = feed r' cs" for r'
      using Cons.IH [of "[]" r'] Cons.prems by (simp split: if_splits)
    show ?thesis
      using True
      by (simp add: parse_line_def parse_chars_snoc IH split: sum.splits)
  next
    case False
    then have "cs \<noteq> []" "last cs = LF"
      using Cons.prems by (auto split: if_splits)
    then have "reader_rows r (file_lines (cur @ [c]) cs) =
        (case parse_chars r (cur @ [c]) of Inl e \<Rightarrow> ([], Some e) | Inr rc \<Rightarrow> feed rc cs)"
      using Cons.IH [of "cur @ [c]" r] by simp
    then show ?thesis
      using False by (simp add: parse_chars_snoc split: sum.splits)
  qed
qed

lemma csv_reader_feed:
  assumes "content \<noteq> [] \<longrightarrow> last content = LF"
  shows "csv_reader (file_lines [] content) = feed parse_reset content"
  using reader_rows_file_lines [of content "[]" parse_reset] assms
  by (simp add: csv_reader_def)

lemma quiet_feed: "quiet r xs = Some r' \<Longrightarrow> feed r (xs @ rest) = feed r' rest"
proof (induction xs arbitrary: r)
  case Nil
  then show ?case by simp
next
  case (Cons c cs)
  then show ?case
    by (auto simp: parse_process_char_def split: sum.splits if_splits)
qed

lemma quiet_append:
  "quiet r (xs @ ys) = (case quiet r xs of None \<Rightarrow> None | Some r' \<Rightarrow> quiet r' ys)"
  by (induction xs arbitrary: r) (auto split: sum.splits)

text \<open>What the reader does on a field as \<open>csv.writer\<close> writes it, and after it.\<close>

lemma quiet_in_field:
  assumes "state r = IN_FIELD" "\<not> needs_quotes xs"
    and "length (cur_field r) + length xs \<le> field_limit"
  shows "quiet r xs = Some (r\<lparr>cur_field := cur_field r @ xs\<rparr>)"
  using assms
proof (induction xs arbitrary: r)
  case Nil
  then show ?case by simp
next
  case (Cons c cs)
  have c: "c \<noteq> delimiter" "c \<noteq> quotechar" "c \<noteq> CR" "c \<noteq> LF" and cs: "\<not> needs_quotes cs"
    using Cons.prems(2) by (auto simp: needs_quotes_def)
  let ?r1 = "r\<lparr>cur_field := cur_field r @ [c]\<rparr>"
  have step: "parse_process_char r (Ch c) = Inr ?r1"
    using Cons.prems(1,3) c by (simp add: parse_process_char_def parse_add_char_def)
  have "quiet ?r1 cs = Some (?r1\<lparr>cur_field := cur_field ?r1 @ cs\<rparr>)"
    using Cons.prems(1,3) cs by (intro Cons.IH) simp_all
  then show ?case
    using step c by simp
qed

lemma quiet_in_quoted:
  assumes "state r = IN_QUOTED_FIELD"
    and "length (cur_field r) + length xs \<le> field_limit"
  shows "quiet r (concat (map (\<lambda>c. if c = quotechar then [c, c] else [c]) xs)) =
     Some (r\<lparr>cur_field := cur_field r @ xs\<rparr>)"
  using assms
proof (induction xs arbitrary: r)
  case Nil
  then show ?case by simp
next
  case (Cons c cs)
  let ?r1 = "r\<lparr>cur_field := cur_field r @ [c]\<rparr>"
  have IH: "quiet ?r1 (concat (map (\<lambda>c. if c = quotechar then [c, c] else [c]) cs)) =
      Some (?r1\<lparr>cur_field := cur_field ?r1 @ cs\<rparr>)"
    using Cons.prems by (intro Cons.IH) simp_all
  show ?case
  proof (cases "c = quotechar")
    case True
    have "parse_process_char r (Ch c) = Inr (r\<lparr>state := QUOTE_IN_QUOTED_FIELD\<rparr>)"
      using Cons.prems(1) True by (simp add: parse_process_char_def)
    moreover have "parse_process_char (r\<lparr>state := QUOTE_IN_QUOTED_FIELD\<rparr>) (Ch c) = Inr ?r1"
      using Cons.prems True
      by (simp add: parse_process_char_def parse_add_char_def then_state_def)
    ultimately show ?thesis
      using IH True by simp
  next
    case False
    have "parse_process_char r (Ch c) = Inr ?r1"
      using Cons.prems False by (simp add: parse_process_char_def parse_add_char_def)
    then show ?thesis
      using IH False Cons.prems(1) by simp
  qed
qed

lemma join_append_empty: "join_append f = [] \<longleftrightarrow> f = []"
  by (auto simp: join_append_def needs_quotes_def)

lemma quiet_field:
  assumes "state r = START_RECORD \<or> state r = START_FIELD" "cur_field r = []"
    and "length f \<le> field_limit"
  shows "\<exists>r'. quiet r (join_append f) = Some r' \<and> row_fields r' = row_fields r \<and>
            cur_field r' = f \<and>
            (state r' = IN_FIELD \<or> state r' = QUOTE_IN_QUOTED_FIELD \<or> (f = [] \<and> r' = r))"
proof (cases "needs_quotes f")
  case True
  let ?r1 = "r\<lparr>state := IN_QUOTED_FIELD\<rparr>"
  let ?r2 = "?r1\<lparr>cur_field := cur_field ?r1 @ f\<rparr>"
  have open_quote: "parse_process_char r (Ch quotechar) = Inr ?r1"
    using assms(1) by (auto simp: parse_process_char_def start_field_def)
  have body: "quiet ?r1 (concat (map (\<lambda>c. if c = quotechar then [c, c] else [c]) f)) = Some ?r2"
    using assms(2,3) by (intro quiet_in_quoted) simp_all
  have close_quote: "quiet ?r2 [quotechar] = Some (?r2\<lparr>state := QUOTE_IN_QUOTED_FIELD\<rparr>)"
    by (simp add: parse_process_char_def)
  have "quiet r (join_append f) = Some (?r2\<lparr>state := QUOTE_IN_QUOTED_FIELD\<rparr>)"
    using True open_quote body close_quote
    by (simp add: join_append_def quiet_append)
  then show ?thesis
    using assms(2) by simp
next
  case False
  show ?thesis
  proof (cases f)
    case Nil
    then show ?thesis using assms(2) by (simp add: join_append_def needs_quotes_def)
  next
    case (Cons c cs)
    have c: "c \<noteq> delimiter" "c \<noteq> quotechar" "c \<noteq> CR" "c \<noteq> LF" and cs: "\<not> needs_quotes cs"
      using False Cons by (auto simp: needs_quotes_def)
    let ?r1 = "r\<lparr>cur_field := [c], state := IN_FIELD\<rparr>"
    have first: "parse_process_char r (Ch c) = Inr ?r1"
      using assms c
      by (auto simp: parse_process_char_def start_field_def parse_add_char_def then_state_def
          field_limit_def)
    have "quiet ?r1 cs = Some (?r1\<lparr>cur_field := cur_field ?r1 @ cs\<rparr>)"
      using assms(3) cs Cons by (intro quiet_in_field) simp_all
    then have "quiet r (join_append f) = Some (?r1\<lparr>cur_field := cur_field ?r1 @ cs\<rparr>)"
      using False Cons first c by (simp add: join_append_def)
    then show ?thesis
      using Cons by simp
  qed
qed

lemma delimiter_after_field:
  assumes "state r = IN_FIELD \<or> state r = QUOTE_IN_QUOTED_FIELD \<or>
           ((state r = START_RECORD \<or> state r = START_FIELD) \<and> cur_field r = [])"
  shows "parse_process_char r (Ch delimiter) =
     Inr (r\<lparr>row_fields := row_fields r @ [cur_field r], cur_field := [], state := START_FIELD\<rparr>)"
  using assms
  by (auto simp: parse_process_char_def start_field_def parse_save_field_def)

lemma newline_after_field:
  assumes "state r = IN_FIELD \<or> state r = QUOTE_IN_QUOTED_FIELD \<or> state r = START_FIELD"
  shows "feed r (LF # rest) =
     (case feed parse_reset rest of (rows, e) \<Rightarrow> ((row_fields r @ [cur_field r]) # rows, e))"
  using assms
  by (auto simp: parse_process_char_def start_field_def parse_save_field_def)

text \<open>
  A record and a file as \<open>csv.writer\<close> writes them are read back as the rows written,
  when no field holds a carriage return or is longer than the field size limit.
\<close>

lemma feed_fields:
  assumes "row \<noteq> []"
    and "state r = START_FIELD \<or> (state r = START_RECORD \<and> join_fields (map join_append row) \<noteq> [])"
    and "cur_field r = []"
    and "\<forall>f\<in>set row. length f \<le> field_limit"
  shows "feed r (join_fields (map join_append row) @ LF # rest) =
     (case feed parse_reset rest of (rows, e) \<Rightarrow> ((row_fields r @ row) # rows, e))"
  using assms
proof (induction row arbitrary: r)
  case Nil
  then show ?case by simp
next
  case (Cons f fs)
  have "state r = START_RECORD \<or> state r = START_FIELD" "length f \<le> field_limit"
    using Cons.prems by auto
  from quiet_field [OF this(1) Cons.prems(3) this(2)]
  obtain r' where r': "quiet r (join_append f) = Some r'" "row_fields r' = row_fields r"
    "cur_field r' = f"
    "state r' = IN_FIELD \<or> state r' = QUOTE_IN_QUOTED_FIELD \<or> (f = [] \<and> r' = r)"
    by blast
  show ?case
  proof (cases fs)
    case Nil
    have "state r' = IN_FIELD \<or> state r' = QUOTE_IN_QUOTED_FIELD \<or> state r' = START_FIELD"
      using r'(4) Cons.prems(2) Nil by (auto simp: join_append_empty)
    from newline_after_field [OF this, of rest] show ?thesis
      using Nil r' quiet_feed [OF r'(1), of "LF # rest"] by simp
  next
    case (Cons g gs)
    let ?r2 = "r'\<lparr>row_fields := row_fields r' @ [cur_field r'], cur_field := [], state := START_FIELD\<rparr>"
    have "state r' = IN_FIELD \<or> state r' = QUOTE_IN_QUOTED_FIELD \<or>
           ((state r' = START_RECORD \<or> state r' = START_FIELD) \<and> cur_field r' = [])"
      using r'(3,4) \<open>state r = START_RECORD \<or> state r = START_FIELD\<close> by auto
    then have "parse_process_char r' (Ch delimiter) = Inr ?r2"
      by (rule delimiter_after_field)
    then have "quiet r (join_append f @ [delimiter]) = Some ?r2"
      using r'(1) by (simp add: quiet_append)
    then have "feed r ((join_append f @ [delimiter]) @ join_fields (map join_append fs) @ LF # rest) =
        feed ?r2 (join_fields (map join_append fs) @ LF # rest)"
      by (rule quiet_feed)
    moreover have "feed ?r2 (join_fields (map join_append fs) @ LF # rest) =
        (case feed parse_reset rest of (rows, e) \<Rightarrow> ((row_fields ?r2 @ fs) # rows, e))"
      using Cons.prems(4) Cons by (intro Cons.IH) simp_all
    ultimately show ?thesis
      using Cons r'(2,3) by simp
  qed
qed

lemma writerow_row_text: "writerow row = row_text row @ [CR, LF]"
  by (simp add: writerow_def row_text_def Let_def)

lemma join_fields_empty:
  "join_fields (map join_append row) = [] \<Longrightarrow> row = [] \<or> row = [[]]"
  by (induction row rule: join_fields.induct) (auto simp: join_append_empty)

lemma feed_row_text:
  assumes "\<forall>f\<in>set row. length f \<le> field_limit"
  shows "feed parse_reset (row_text row @ LF # rest) =
     (case feed parse_reset rest of (rows, e) \<Rightarrow> (row # rows, e))"
proof (cases "join_fields (map join_append row) = []")
  case True
  then consider "row = []" | "row = [[]]"
    using join_fields_empty by blast
  then show ?thesis
  proof cases
    case 1
    then show ?thesis
      by (simp add: row_text_def parse_process_char_def parse_reset_def)
  next
    case 2
    then show ?thesis
      by (simp add: row_text_def join_append_def needs_quotes_def parse_process_char_def
          start_field_def parse_reset_def parse_save_field_def)
  qed
next
  case False
  then have "row \<noteq> []" by auto
  from feed_fields [OF this _ _ assms, of parse_reset rest] show ?thesis
    using False by (simp add: row_text_def parse_reset_def)
qed

lemma feed_rows:
  assumes "\<forall>row\<in>set rows. \<forall>f\<in>set row. length f \<le> field_limit"
  shows "feed parse_reset (concat (map (\<lambda>row. row_text row @ [LF]) rows)) = (rows, None)"
  using assms
proof (induction rows)
  case Nil
  show ?case by (simp add: parse_reset_def)
next
  case (Cons row rows)
  then have "feed parse_reset (concat (map (\<lambda>row. row_text row @ [LF]) rows)) = (rows, None)"
    by simp
  moreover have "\<forall>f\<in>set row. length f \<le> field_limit"
    using Cons.prems by simp
  ultimately show ?case
    using feed_row_text [of row "concat (map (\<lambda>row. row_text row @ [LF]) rows)"] by simp
qed

lemma universal_newlines_no_CR: "CR \<notin> set xs \<Longrightarrow> universal_newlines xs = xs"
  by (induction xs rule: universal_newlines.induct) auto

lemma universal_newlines_line:
  "CR \<notin> set xs \<Longrightarrow> universal_newlines (xs @ CR # LF # rest) = xs @ LF # universal_newlines rest"
proof (induction xs)
  case Nil
  show ?case by simp
next
  case (Cons x xs)
  then show ?case by (cases xs) auto
qed

lemma join_fields_no_CR:
  "\<forall>f\<in>set fs. CR \<notin> set f \<Longrightarrow> CR \<notin> set (join_fields fs)"
  by (induction fs rule: join_fields.induct) auto

lemma join_append_no_CR: "CR \<notin> set f \<Longrightarrow> CR \<notin> set (join_append f)"
  by (auto simp: join_append_def split: if_splits)

lemma row_text_no_CR: "\<forall>f\<in>set row. CR \<notin> set f \<Longrightarrow> CR \<notin> set (row_text row)"
  using join_fields_no_CR [of "map join_append row"]
  by (auto simp: row_text_def Let_def join_append_no_CR)

lemma universal_newlines_rows:
  assumes "\<forall>row\<in>set rows. \<forall>f\<in>set row. CR \<notin> set f"
  shows "universal_newlines (concat (map writerow rows)) =
     concat (map (\<lambda>row. row_text row @ [LF]) rows)"
  using assms
proof (induction rows)
  case Nil
  show ?case by simp
next
  case (Cons row rows)
  have "CR \<notin> set (row_text row)"
    using Cons.prems by (simp add: row_text_no_CR)
  then show ?case
    using Cons by (simp add: writerow_row_text universal_newlines_line)
qed

lemma last_rows_text:
  "concat (map (\<lambda>row. row_text row @ [LF]) rows) \<noteq> [] \<longrightarrow>
   last (concat (map (\<lambda>row. row_text row @ [LF]) rows)) = LF"
  by (induction rows rule: rev_induct) simp_all

lemma csv_round_trip:
  assumes "\<forall>row\<in>set rows. \<forall>f\<in>set row. CR \<notin> set f \<and> length f \<le> field_limit"
  shows "csv_reader (open_read (concat (map writerow rows))) = (rows, None)"
proof -
  have "open_read (concat (map writerow rows)) =
      file_lines [] (concat (map (\<lambda>row. row_text row @ [LF]) rows))"
    using assms by (simp add: open_read_def universal_newlines_rows)
  then show ?thesis
    using assms csv_reader_feed [OF last_rows_text, of rows] feed_rows [of rows] by simp
qed

text \<open>
  So a roster without carriage returns in its ids, names and dates, saved and loaded into
  an empty manager, comes back with its students that have marks, in their order; the
  students without marks are dropped.
\<close>

lemma csv_safe_str_bool: "csv_safe (str_bool p)"
  by (simp add: csv_safe_def str_bool_def field_limit_def)

lemma save_rows_csv_safe:
  assumes "roster_csv_safe students"
  shows "\<forall>row\<in>set (save_rows students). \<forall>f\<in>set row. CR \<notin> set f \<and> length f \<le> field_limit"
proof -
  have "\<forall>row\<in>set (save_rows students). \<forall>f\<in>set row. csv_safe f"
    using assms
    by (fastforce simp: save_rows_def roster_csv_safe_def list_all_iff csv_safe_str_bool)
  then show ?thesis
    by (simp add: csv_safe_def)
qed

lemma file_rows_after_save:
  assumes "roster_csv_safe students" "write_fails fs filename = None" "read_fails fs filename = None"
  shows "file_rows (snd (save_to_csv fs filename students)) filename = save_rows students"
  using assms csv_round_trip [OF save_rows_csv_safe [OF assms(1)]]
  by (simp add: file_rows_def save_to_csv_def)

lemma save_then_load:
  assumes "roster_ok students" "roster_csv_safe students"
    and "write_fails fs filename = None" "read_fails fs filename = None"
  shows "snd (load_from_csv today (snd (save_to_csv fs filename students)) filename Manager_init) =
     filter (\<lambda>(sid, s). attendance s \<noteq> []) students"
  using assms by (simp add: load_from_csv_rows file_rows_after_save load_rows_save_rows)

lemma save_then_load_records:
  assumes "roster_ok students" "roster_csv_safe students"
    and "write_fails fs filename = None" "read_fails fs filename = None"
  shows "records (snd (load_from_csv today (snd (save_to_csv fs filename students)) filename
            Manager_init)) = records students"
  using assms by (simp add: save_then_load records_filter_marked)

lemma save_then_load_unmarked:
  assumes "roster_ok students" "roster_csv_safe students"
    and "write_fails fs filename = None" "read_fails fs filename = None"
    and "map_of students sid = Some s" "attendance s = []"
  shows "\<not> dict_contains sid
     (snd (load_from_csv today (snd (save_to_csv fs filename students)) filename Manager_init))"
  using assms save_rows_unmarked [of students sid s today]
  by (simp add: load_from_csv_rows file_rows_after_save)


text \<open>
  C2: saving a roster and loading the file into an empty manager gives back the same
  (id, name, date, present) tuples.  It does not where a name holds a carriage return:
  \<open>save_to_csv\<close> opens the file with \<open>newline=''\<close> and writes the carriage return inside
  quotes, \<open>load_from_csv\<close> opens the file without \<open>newline=''\<close> and reads a line feed in
  its place.
\<close>

theorem save_then_load_carriage_return:
  "records (snd (load_from_csv ''2024-01-09''
      (snd (save_to_csv \<lparr>files = (\<lambda>p. None), write_fails = (\<lambda>p. None), read_fails = (\<lambda>p. None)\<rparr>
              ''attendance_data.csv''
              [(''S1'', \<lparr>student_id = ''S1'', name = [CHR ''A'', CR, CHR ''n''],
                         attendance = [(''2024-01-01'', True)]\<rparr>)]))
      ''attendance_data.csv'' Manager_init)) =
     {(''S1'', [CHR ''A'', LF, CHR ''n''], ''2024-01-01'', True)} \<and>
   records [(''S1'', \<lparr>student_id = ''S1'', name = [CHR ''A'', CR, CHR ''n''],
                       attendance = [(''2024-01-01'', True)]\<rparr>)] =
     {(''S1'', [CHR ''A'', CR, CHR ''n''], ''2024-01-01'', True)}"
  by (simp add: csv_eval records_def)

text \<open>
  C9: \<open>save_to_csv\<close> writes no row for a student whose attendance mapping is empty, so
  that student is not in the roster loaded from the file.  The second part fails where
  the id of a student with marks holds a carriage return and the id of the student
  without marks is the same text with a line feed: the row of the first is read back
  under the id of the second.
\<close>

theorem save_then_load_unmarked_student:
  "save_rows
     [([CHR ''7'', CR, CHR ''1''], \<lparr>student_id = [CHR ''7'', CR, CHR ''1''], name = ''Ann'',
                                     attendance = [(''2024-01-01'', True)]\<rparr>),
      ([CHR ''7'', LF, CHR ''1''], \<lparr>student_id = [CHR ''7'', LF, CHR ''1''], name = ''Bob'',
                                     attendance = []\<rparr>)] =
     [[[CHR ''7'', CR, CHR ''1''], ''Ann'', ''2024-01-01'', ''True'']] \<and>
   snd (load_from_csv ''2024-01-09''
      (snd (save_to_csv \<lparr>files = (\<lambda>p. None), write_fails = (\<lambda>p. None), read_fails = (\<lambda>p. None)\<rparr>
              ''attendance_data.csv''
              [([CHR ''7'', CR, CHR ''1''], \<lparr>student_id = [CHR ''7'', CR, CHR ''1''], name = ''Ann'',
                                              attendance = [(''2024-01-01'', True)]\<rparr>),
               ([CHR ''7'', LF, CHR ''1''], \<lparr>student_id = [CHR ''7'', LF, CHR ''1''], name = ''Bob'',
                                              attendance = []\<rparr>)]))
      ''attendance_data.csv'' Manager_init) =
     [([CHR ''7'', LF, CHR ''1''], \<lparr>student_id = [CHR ''7'', LF, CHR ''1''], name = ''Ann'',
                                     attendance = [(''2024-01-01'', True)]\<rparr>)]"
  by (simp add: csv_eval)

end
